theory Spec2Isabelle
  imports Main "HOL-Library.Sublist" "HOL-Library.Monad_Syntax"
begin

section \<open>Python strings\<close>

text \<open>
  A Python \<open>str\<close> is modelled as a \<open>string\<close> holding its UTF-8 bytes, so the
  non-ASCII literals of the source are written as their bytes.  Whitespace and letter case
  are modelled on the ASCII range: \<open>str.strip\<close>, \<open>str.lower\<close> and \<open>str.upper\<close>
  leave every byte above 127 alone.
\<close>

definition NL :: string where
  "NL = [CHR 0x0A]"

definition is_space :: "char \<Rightarrow> bool" where
  "is_space c \<longleftrightarrow> of_char c \<in> {9, 10, 11, 12, 13, 28, 29, 30, 31, 32 :: nat}"

definition lstrip :: "string \<Rightarrow> string" where
  "lstrip s = dropWhile is_space s"

definition rstrip :: "string \<Rightarrow> string" where
  "rstrip s = rev (dropWhile is_space (rev s))"

definition strip :: "string \<Rightarrow> string" where
  "strip s = rstrip (lstrip s)"

definition lower_char :: "char \<Rightarrow> char" where
  "lower_char c = (let n = of_char c :: nat in if 65 \<le> n \<and> n \<le> 90 then char_of (n + 32) else c)"

definition upper_char :: "char \<Rightarrow> char" where
  "upper_char c = (let n = of_char c :: nat in if 97 \<le> n \<and> n \<le> 122 then char_of (n - 32) else c)"

definition lower :: "string \<Rightarrow> string" where
  "lower s = map lower_char s"

definition upper :: "string \<Rightarrow> string" where
  "upper s = map upper_char s"

text \<open>\<open>sep.join(xs)\<close>.\<close>

fun join :: "string \<Rightarrow> string list \<Rightarrow> string" where
  "join sep [] = []"
| "join sep [x] = x"
| "join sep (x # y # ys) = x @ sep @ join sep (y # ys)"

text \<open>
  \<open>s.split(sep, 1)\<close> for a non-empty \<open>sep\<close>: \<open>Some (before, after)\<close> around the first
  occurrence of \<open>sep\<close>, and \<open>None\<close> when \<open>sep\<close> does not occur (Python then returns
  the one-element list \<open>[s]\<close>).  \<open>sep in s\<close> is the same search.
\<close>

fun split_first :: "string \<Rightarrow> string \<Rightarrow> (string \<times> string) option" where
  "split_first sep [] = None"
| "split_first sep (c # cs) =
     (if prefix sep (c # cs) then Some ([], drop (length sep) (c # cs))
      else map_option (\<lambda>(a, b). (c # a, b)) (split_first sep cs))"

definition contains :: "string \<Rightarrow> string \<Rightarrow> bool" where
  "contains sep s \<longleftrightarrow> split_first sep s \<noteq> None"

text \<open>\<open>str(n)\<close> for a non-negative integer.\<close>

definition digit_char :: "nat \<Rightarrow> char" where
  "digit_char d = char_of (48 + d)"

fun str_nat :: "nat \<Rightarrow> string" where
  "str_nat n = (if n < 10 then [digit_char n] else str_nat (n div 10) @ [digit_char (n mod 10)])"

declare str_nat.simps [simp del]

text \<open>\<open>s.startswith(p)\<close> and \<open>s.endswith(p)\<close>.\<close>

definition startswith :: "string \<Rightarrow> string \<Rightarrow> bool" where
  "startswith s p \<longleftrightarrow> prefix p s"

definition endswith :: "string \<Rightarrow> string \<Rightarrow> bool" where
  "endswith s p \<longleftrightarrow> suffix p s"

text \<open>
  \<open>s.replace(old, new)\<close> for a non-empty \<open>old\<close>: the occurrences are replaced from the
  left, and the search goes on after each replaced occurrence.
\<close>

fun replace :: "string \<Rightarrow> string \<Rightarrow> string \<Rightarrow> string" where
  "replace old new [] = []"
| "replace old new (c # cs) =
     (if old \<noteq> [] \<and> prefix old (c # cs)
      then new @ replace old new (drop (length old) (c # cs))
      else c # replace old new cs)"

text \<open>\<open>f"{x}"\<close> for a value that may be \<open>None\<close>.\<close>

definition fmt :: "string option \<Rightarrow> string" where
  "fmt x = (case x of None \<Rightarrow> ''None'' | Some s \<Rightarrow> s)"


text \<open>\<open>s.split()\<close>: the words between runs of white space.\<close>

fun words_from :: "string \<Rightarrow> string \<Rightarrow> string list" where
  "words_from cur [] = (if cur = [] then [] else [rev cur])"
| "words_from cur (c # cs) =
     (if is_space c then (if cur = [] then words_from [] cs else rev cur # words_from [] cs)
      else words_from (c # cur) cs)"

definition words :: "string \<Rightarrow> string list" where
  "words s = words_from [] s"

text \<open>\<open>os.path.basename(p)\<close>: what follows the last \<open>/\<close>.\<close>

definition basename :: "string \<Rightarrow> string" where
  "basename p = rev (takeWhile (\<lambda>c. c \<noteq> CHR ''/'') (rev p))"

section \<open>Data model\<close>

text \<open>
  A naive \<open>datetime.datetime\<close>, as \<open>datetime.now()\<close> and \<open>datetime.utcnow()\<close> return
  it.  Python only builds values that satisfy \<open>valid_datetime\<close>.
\<close>

record datetime =
  year :: nat
  month :: nat
  day :: nat
  hour :: nat
  minute :: nat
  second :: nat
  microsecond :: nat

definition is_leap :: "nat \<Rightarrow> bool" where
  "is_leap y \<longleftrightarrow> y mod 4 = 0 \<and> (y mod 100 \<noteq> 0 \<or> y mod 400 = 0)"

definition days_in_month :: "nat \<Rightarrow> nat \<Rightarrow> nat" where
  "days_in_month y m =
     (if m = 2 then (if is_leap y then 29 else 28)
      else if m = 4 \<or> m = 6 \<or> m = 9 \<or> m = 11 then 30 else 31)"

definition valid_datetime :: "datetime \<Rightarrow> bool" where
  "valid_datetime dt \<longleftrightarrow>
     1 \<le> year dt \<and> year dt \<le> 9999 \<and> 1 \<le> month dt \<and> month dt \<le> 12 \<and>
     1 \<le> day dt \<and> day dt \<le> days_in_month (year dt) (month dt) \<and>
     hour dt < 24 \<and> minute dt < 60 \<and> second dt < 60 \<and> microsecond dt < 1000000"

text \<open>The dataclass \<open>FileMeta\<close> (metadata_store.py); \<open>size\<close> is named \<open>size_f\<close> here.\<close>

record FileMeta =
  path :: string
  cloud :: string
  title :: string
  description :: string
  mime_type :: string
  size_f :: int
  last_scanned :: datetime

text \<open>The dictionaries that \<open>_collect_docs\<close> builds, one per candidate file.\<close>

record doc =
  doc_path :: string
  doc_title :: string
  doc_description :: string
  doc_schema :: string
  sample_text :: string

text \<open>
  A step of the planner's JSON plan: \<open>step.get("cloud")\<close> and \<open>step.get("dataset")\<close>
  are \<open>None\<close> when the key is absent, \<open>step.get("sub_question", "")\<close> defaults to the
  empty string.
\<close>

record step =
  step_cloud :: "string option"
  sub_question :: string
  step_dataset :: "string option"

text \<open>The plan: \<open>plan.get("steps", [])\<close> is \<open>[]\<close> when the key is absent.\<close>

record plan =
  steps :: "step list option"

text \<open>
  What \<open>auto_describe\<close> reads of a column of the parsed preview: its name, whether its
  values are unique (\<open>df[c].is_unique\<close>), and the first and last date among its values
  as \<open>pd.to_datetime(df[c], errors="coerce")\<close> finds them (\<open>None\<close> when no value
  parses).
\<close>

record column =
  col_name :: string
  is_unique :: bool
  date_range :: "(string \<times> string) option"

section \<open>The outside world\<close>

text \<open>
  Everything the program asks of a collaborator (object storage, the clock, the language
  models, pandas, and the per-source query clients as seen from the orchestrator) is a
  \<open>call\<close>.  The world answers a call with a \<open>response\<close> that may depend on
  everything that happened before: a \<open>reply_fn\<close> maps the history and the call to the
  response, and the history (the \<open>trace\<close>) is state that the model threads through the
  program.  \<open>Fails\<close> is a call that raises.  A language-model call carries the values
  that the source interpolates into its prompt; only the prompt of \<open>_execute_plan\<close> is
  spelled out, as a claim is about its text.
\<close>

datatype error =
    ValueError
  | IndexError
  | UnboundLocalError
  | NotFound
  | ExternalError

datatype call =
    ListS3 "string option"
  | ListAz "string option"
  | S3GetRange "string option" string nat
  | AzDownload "string option" string nat
  | S3Head "string option" string
  | AzProps "string option" string
  | Now
  | UtcNow
  | ParseTable string string
  | DescribeLLM string string string
  | ClientLLM string "doc list"
  | PlanLLM string string string "(string \<times> string) list"
  | S3Answer string string
  | AzAnswer string string
  | MergeLLM string string string string

datatype response =
    Fails
  | Text string
  | Names "string list"
  | Props int "string option"
  | Time datetime
  | Table "column list"
  | Plan plan

type_synonym trace = "(call \<times> response) list"
type_synonym reply_fn = "trace \<Rightarrow> call \<Rightarrow> response"

definition ask :: "reply_fn \<Rightarrow> call \<Rightarrow> trace \<Rightarrow> response \<times> trace" where
  "ask orc c tr = (orc tr c, tr @ [(c, orc tr c)])"

definition ask_text :: "reply_fn \<Rightarrow> call \<Rightarrow> trace \<Rightarrow> (error + string) \<times> trace" where
  "ask_text orc c tr =
     (case ask orc c tr of
        (Text s, tr') \<Rightarrow> (Inr s, tr')
      | (_, tr') \<Rightarrow> (Inl ExternalError, tr'))"

definition ask_names :: "reply_fn \<Rightarrow> call \<Rightarrow> trace \<Rightarrow> (error + string list) \<times> trace" where
  "ask_names orc c tr =
     (case ask orc c tr of
        (Names ns, tr') \<Rightarrow> (Inr ns, tr')
      | (_, tr') \<Rightarrow> (Inl ExternalError, tr'))"

text \<open>
  The environment variables, read once, and the two library routines whose results the
  program only passes on: the column names \<open>pd.read_csv\<close> finds in a text (\<open>None\<close>
  when it raises), and what the regular expressions of the per-source clients find in a
  model response: the lines of its \<open>DESCRIPTIONS\<close> section (none when it has no such
  header), and the two groups of a line that \<open>_KV\<close> matches.
\<close>

record env =
  S3_BUCKET :: "string option"
  AZURE_CONTAINER :: "string option"
  TEST_MODE :: bool
  SCAN_HEAD_SIZE :: nat
  reply :: reply_fn
  read_csv_columns :: "string \<Rightarrow> string list option"
  description_lines :: "string \<Rightarrow> string list"
  kv_groups :: "string \<Rightarrow> (string \<times> string) option"

text \<open>
  The side-car objects of both backends and the files of the local cache directory, as
  association lists from the object's address to its body, and the trace.  The backends
  are reliable: a put stores, a get raises only when the object is absent.
\<close>

record world =
  s3_objects :: "((string \<times> string) \<times> string) list"
  az_blobs :: "((string \<times> string) \<times> string) list"
  local_files :: "(string \<times> string) list"
  trace :: trace

type_synonym 'a io = "world \<Rightarrow> (error + 'a) \<times> world"

section \<open>The side-car format (metadata_store.py)\<close>

subsection \<open>Timestamps: \<open>strftime\<close> and \<open>strptime\<close> with \<open>ISO_FMT\<close>\<close>

text \<open>\<open>"%0nd" % x\<close>: the decimal digits of \<open>x\<close>, filled with zeros to width \<open>n\<close>.\<close>

definition zero_pad :: "nat \<Rightarrow> nat \<Rightarrow> string" where
  "zero_pad n x = replicate (n - length (str_nat x)) CHR ''0'' @ str_nat x"

text \<open>
  \<open>dt.strftime("%Y-%m-%dT%H:%M:%SZ")\<close>.  The format has no directive for the
  microseconds.  \<open>%Y\<close> is the year in four digits, as the library documents it.
\<close>

definition strftime :: "datetime \<Rightarrow> string" where
  "strftime dt =
     zero_pad 4 (year dt) @ ''-'' @ zero_pad 2 (month dt) @ ''-'' @ zero_pad 2 (day dt)
     @ ''T'' @ zero_pad 2 (hour dt) @ '':'' @ zero_pad 2 (minute dt) @ '':''
     @ zero_pad 2 (second dt) @ ''Z''"

definition digit_val :: "char \<Rightarrow> nat option" where
  "digit_val c = (let n = of_char c :: nat in if 48 \<le> n \<and> n \<le> 57 then Some (n - 48) else None)"

definition is_digit :: "char \<Rightarrow> bool" where
  "is_digit c \<longleftrightarrow> digit_val c \<noteq> None"

text \<open>The value of a run of decimal digits, most significant first.\<close>

definition digits_val :: "string \<Rightarrow> nat" where
  "digits_val ds = foldl (\<lambda>acc c. 10 * acc + (case digit_val c of None \<Rightarrow> 0 | Some d \<Rightarrow> d)) 0 ds"

text \<open>A field of exactly \<open>n\<close> digits, and a literal character of the format.\<close>

definition field :: "nat \<Rightarrow> string \<Rightarrow> (nat \<times> string) option" where
  "field n s =
     (if length s < n \<or> \<not> list_all is_digit (take n s) then None
      else Some (digits_val (take n s), drop n s))"

definition literal :: "char \<Rightarrow> string \<Rightarrow> string option" where
  "literal c s = (case s of [] \<Rightarrow> None | x # xs \<Rightarrow> if x = c then Some xs else None)"

text \<open>
  \<open>datetime.strptime(s, "%Y-%m-%dT%H:%M:%SZ")\<close>, on the zero-filled form that
  \<open>strftime\<close> writes: \<open>None\<close> is the \<open>ValueError\<close> of a text that does not match or
  of field values that are no date.  (The library also reads fields written without their
  leading zero, and the letters in lower case; the model rejects those.)  The result has
  no microseconds.
\<close>

definition strptime :: "string \<Rightarrow> datetime option" where
  "strptime s =
     do {
       (y, s) \<leftarrow> field 4 s;
       s \<leftarrow> literal CHR ''-'' s;
       (mo, s) \<leftarrow> field 2 s;
       s \<leftarrow> literal CHR ''-'' s;
       (d, s) \<leftarrow> field 2 s;
       s \<leftarrow> literal CHR ''T'' s;
       (h, s) \<leftarrow> field 2 s;
       s \<leftarrow> literal CHR '':'' s;
       (mi, s) \<leftarrow> field 2 s;
       s \<leftarrow> literal CHR '':'' s;
       (se, s) \<leftarrow> field 2 s;
       s \<leftarrow> literal CHR ''Z'' s;
       let dt = \<lparr>year = y, month = mo, day = d, hour = h, minute = mi, second = se,
                 microsecond = 0\<rparr>;
       if s = [] \<and> valid_datetime dt then Some dt else None
     }"

subsection \<open>JSON text: \<open>json.dumps\<close> and \<open>json.loads\<close>\<close>

text \<open>
  The documents of the side-car format are objects whose members are strings and
  integers.  \<open>dumps\<close> writes one as \<open>json.dumps(d, ensure_ascii=False)\<close> does;
  \<open>loads\<close> reads the objects of this shape (any JSON white space between the tokens)
  and is \<open>None\<close> where \<open>json.loads\<close> raises, and also on the JSON values outside this
  shape (nested values, floats, \<open>null\<close>, escapes of code points above 127), which no
  \<open>FileMeta\<close> is written as.
\<close>

datatype jvalue = JString string | JInt int

definition hex_char :: "nat \<Rightarrow> char" where
  "hex_char n = (if n < 10 then char_of (48 + n) else char_of (87 + n))"

definition hex_val :: "char \<Rightarrow> nat option" where
  "hex_val c =
     (let n = of_char c :: nat in
      if 48 \<le> n \<and> n \<le> 57 then Some (n - 48)
      else if 97 \<le> n \<and> n \<le> 102 then Some (n - 87)
      else if 65 \<le> n \<and> n \<le> 70 then Some (n - 55)
      else None)"

text \<open>The table \<open>ESCAPE_DCT\<close> of the encoder: what is written for one character.\<close>

definition escape_char :: "char \<Rightarrow> string" where
  "escape_char c =
     (let n = of_char c :: nat in
      if c = CHR 0x5C then [CHR 0x5C, CHR 0x5C]
      else if c = CHR 0x22 then [CHR 0x5C, CHR 0x22]
      else if n = 8 then [CHR 0x5C, CHR ''b'']
      else if n = 12 then [CHR 0x5C, CHR ''f'']
      else if n = 10 then [CHR 0x5C, CHR ''n'']
      else if n = 13 then [CHR 0x5C, CHR ''r'']
      else if n = 9 then [CHR 0x5C, CHR ''t'']
      else if n < 32 then [CHR 0x5C, CHR ''u'', CHR ''0'', CHR ''0'', hex_char (n div 16), hex_char (n mod 16)]
      else [c])"

definition dumps_string :: "string \<Rightarrow> string" where
  "dumps_string s = CHR 0x22 # concat (map escape_char s) @ [CHR 0x22]"

definition str_int :: "int \<Rightarrow> string" where
  "str_int i = (if i < 0 then CHR ''-'' # str_nat (nat (- i)) else str_nat (nat i))"

fun dumps_value :: "jvalue \<Rightarrow> string" where
  "dumps_value (JString s) = dumps_string s"
| "dumps_value (JInt i) = str_int i"

definition dumps_member :: "string \<times> jvalue \<Rightarrow> string" where
  "dumps_member kv = dumps_string (fst kv) @ '': '' @ dumps_value (snd kv)"

definition dumps :: "(string \<times> jvalue) list \<Rightarrow> string" where
  "dumps d = ''{'' @ join '', '' (map dumps_member d) @ ''}''"

text \<open>The character that a one-letter escape stands for.\<close>

definition unescape :: "char \<Rightarrow> char option" where
  "unescape e =
     (if e = CHR 0x22 then Some (CHR 0x22)
      else if e = CHR 0x5C then Some (CHR 0x5C)
      else if e = CHR ''/'' then Some (CHR ''/'')
      else if e = CHR ''b'' then Some (CHR 0x08)
      else if e = CHR ''f'' then Some (CHR 0x0C)
      else if e = CHR ''n'' then Some (CHR 0x0A)
      else if e = CHR ''r'' then Some (CHR 0x0D)
      else if e = CHR ''t'' then Some (CHR 0x09)
      else None)"

text \<open>
  The scanner of a string, after its opening quote: the decoded contents and the text
  after the closing quote.  It is in state \<open>Plain\<close>, after a backslash in \<open>Escaped\<close>,
  and in \<open>Hex k v\<close> after \<open>\u\<close> and \<open>k\<close> hexadecimal digits of value \<open>v\<close>.  A raw
  control character ends the scan with an error, as the strict decoder has it.
\<close>

datatype scan_state = Plain | Escaped | Hex nat nat

definition cons_result :: "char \<Rightarrow> (string \<times> string) option \<Rightarrow> (string \<times> string) option" where
  "cons_result c r = map_option (\<lambda>(s, rest). (c # s, rest)) r"

fun scan_string :: "scan_state \<Rightarrow> string \<Rightarrow> (string \<times> string) option" where
  "scan_string st [] = None"
| "scan_string Plain (c # cs) =
     (if c = CHR 0x22 then Some ([], cs)
      else if c = CHR 0x5C then scan_string Escaped cs
      else if (of_char c :: nat) < 32 then None
      else cons_result c (scan_string Plain cs))"
| "scan_string Escaped (c # cs) =
     (if c = CHR ''u'' then scan_string (Hex 0 0) cs
      else case unescape c of
             None \<Rightarrow> None
           | Some ch \<Rightarrow> cons_result ch (scan_string Plain cs))"
| "scan_string (Hex k v) (c # cs) =
     (case hex_val c of
        None \<Rightarrow> None
      | Some h \<Rightarrow>
          if k < 3 then scan_string (Hex (k + 1) (16 * v + h)) cs
          else if 16 * v + h < 128 then cons_result (char_of (16 * v + h)) (scan_string Plain cs)
          else None)"

definition is_json_ws :: "char \<Rightarrow> bool" where
  "is_json_ws c \<longleftrightarrow> of_char c \<in> {32, 9, 10, 13 :: nat}"

definition skip_ws :: "string \<Rightarrow> string" where
  "skip_ws s = dropWhile is_json_ws s"

text \<open>
  A number: an optional sign and a run of digits without a leading zero.  What is followed
  by a fraction or an exponent is a float, no integer.
\<close>

definition parse_int :: "string \<Rightarrow> (int \<times> string) option" where
  "parse_int s =
     (let neg = (s \<noteq> [] \<and> hd s = CHR ''-'');
          t = (if neg then tl s else s);
          ds = takeWhile is_digit t;
          rest = dropWhile is_digit t
      in if ds = [] \<or> (1 < length ds \<and> hd ds = CHR ''0'') then None
         else if rest \<noteq> [] \<and> hd rest \<in> {CHR ''.'', CHR ''e'', CHR ''E''} then None
         else Some (if neg then - int (digits_val ds) else int (digits_val ds), rest))"

definition parse_value :: "string \<Rightarrow> (jvalue \<times> string) option" where
  "parse_value s =
     (case s of
        [] \<Rightarrow> None
      | c # cs \<Rightarrow>
          if c = CHR 0x22 then map_option (\<lambda>(v, r). (JString v, r)) (scan_string Plain cs)
          else map_option (\<lambda>(i, r). (JInt i, r)) (parse_int s))"

text \<open>One member \<open>"key": value\<close>, and the text after it with its white space skipped.\<close>

definition parse_member :: "string \<Rightarrow> ((string \<times> jvalue) \<times> string) option" where
  "parse_member s =
     (case s of
        [] \<Rightarrow> None
      | c # cs \<Rightarrow>
          if c \<noteq> CHR 0x22 then None
          else case scan_string Plain cs of
                 None \<Rightarrow> None
               | Some (k, r) \<Rightarrow>
                   (case literal CHR '':'' (skip_ws r) of
                      None \<Rightarrow> None
                    | Some r2 \<Rightarrow>
                        (case parse_value (skip_ws r2) of
                           None \<Rightarrow> None
                         | Some (v, r3) \<Rightarrow> Some ((k, v), skip_ws r3))))"

text \<open>
  The members of an object, after its opening brace: each member is followed by a comma
  and a further member, or by the closing brace.  The first argument bounds the number of
  members; \<open>loads\<close> passes the length of the text, which no text exceeds.
\<close>

fun parse_members :: "nat \<Rightarrow> string \<Rightarrow> ((string \<times> jvalue) list \<times> string) option" where
  "parse_members 0 s = None"
| "parse_members (Suc n) s =
     (case parse_member s of
        None \<Rightarrow> None
      | Some (kv, r) \<Rightarrow>
          (case r of
             [] \<Rightarrow> None
           | c # cs \<Rightarrow>
               if c = CHR ''}'' then Some ([kv], cs)
               else if c = CHR '','' then
                 map_option (\<lambda>(kvs, r'). (kv # kvs, r')) (parse_members n (skip_ws cs))
               else None))"

definition loads :: "string \<Rightarrow> (string \<times> jvalue) list option" where
  "loads s =
     (case skip_ws s of
        [] \<Rightarrow> None
      | c # cs \<Rightarrow>
          if c \<noteq> CHR ''{'' then None
          else case skip_ws cs of
                 [] \<Rightarrow> None
               | c' # cs' \<Rightarrow>
                   if c' = CHR ''}'' then (if skip_ws cs' = [] then Some [] else None)
                   else case parse_members (length s) (c' # cs') of
                          None \<Rightarrow> None
                        | Some (kvs, r) \<Rightarrow> if skip_ws r = [] then Some kvs else None)"

text \<open>
  What may follow a number where it ends, and what follows a member of an object: used to
  state where the parsers stop.
\<close>

definition number_end :: "string \<Rightarrow> bool" where
  "number_end rest \<longleftrightarrow>
     rest = [] \<or> (\<not> is_digit (hd rest) \<and> hd rest \<notin> {CHR ''.'', CHR ''e'', CHR ''E''})"

definition member_end :: "string \<Rightarrow> bool" where
  "member_end rest \<longleftrightarrow> rest \<noteq> [] \<and> hd rest \<in> {CHR '','', CHR ''}''}"

subsection \<open>\<open>FileMeta.to_json\<close> and \<open>FileMeta.from_json\<close>\<close>

text \<open>\<open>asdict(self)\<close> with \<open>last_scanned\<close> replaced by its formatted text.\<close>

definition to_dict :: "FileMeta \<Rightarrow> (string \<times> jvalue) list" where
  "to_dict m =
     [(''path'', JString (path m)),
      (''cloud'', JString (cloud m)),
      (''title'', JString (title m)),
      (''description'', JString (description m)),
      (''mime_type'', JString (mime_type m)),
      (''size'', JInt (size_f m)),
      (''last_scanned'', JString (strftime (last_scanned m)))]"

definition to_json :: "FileMeta \<Rightarrow> string" where
  "to_json m = dumps (to_dict m)"

text \<open>
  A Python dictionary keeps the last value written under a key.  \<open>cls(**d)\<close> raises
  unless the keys are exactly the seven fields; \<open>None\<close> is any exception of \<open>from_json\<close>.
\<close>

definition dict_get :: "(string \<times> jvalue) list \<Rightarrow> string \<Rightarrow> jvalue option" where
  "dict_get d k = map_of (rev d) k"

definition field_names :: "string list" where
  "field_names = [''path'', ''cloud'', ''title'', ''description'', ''mime_type'', ''size'', ''last_scanned'']"

definition from_dict :: "(string \<times> jvalue) list \<Rightarrow> FileMeta option" where
  "from_dict d =
     (if set (map fst d) \<noteq> set field_names then None
      else case (dict_get d ''path'', dict_get d ''cloud'', dict_get d ''title'',
                 dict_get d ''description'', dict_get d ''mime_type'', dict_get d ''size'',
                 dict_get d ''last_scanned'') of
             (Some (JString p), Some (JString c), Some (JString t), Some (JString de),
              Some (JString mt), Some (JInt sz), Some (JString ls)) \<Rightarrow>
               (case strptime ls of
                  None \<Rightarrow> None
                | Some dt \<Rightarrow>
                    Some \<lparr>path = p, cloud = c, title = t, description = de, mime_type = mt,
                          size_f = sz, last_scanned = dt\<rparr>)
           | _ \<Rightarrow> None)"

definition from_json :: "string \<Rightarrow> FileMeta option" where
  "from_json raw = (case loads raw of None \<Rightarrow> None | Some d \<Rightarrow> from_dict d)"

section \<open>The side-car store (metadata_store.py)\<close>

definition SUFFIX :: string where
  "SUFFIX = ''.meta.json''"

text \<open>An object store as an association list: a put replaces the object of that address.\<close>

definition put :: "'k \<Rightarrow> 'v \<Rightarrow> ('k \<times> 'v) list \<Rightarrow> ('k \<times> 'v) list" where
  "put k v al = (k, v) # filter (\<lambda>kv. fst kv \<noteq> k) al"

text \<open>\<open>SidecarStore._is_s3_bucket\<close>.\<close>

definition is_s3_bucket :: "env \<Rightarrow> string \<Rightarrow> bool" where
  "is_s3_bucket env name =
     (if Some name \<in> set [S3_BUCKET env, Some ''my-api-bucket-100757077''] then True
      else if Some name \<in> set [AZURE_CONTAINER env, Some ''feedback''] then False
      else if CHR ''.'' \<in> set name then False
      else True)"

text \<open>
  \<open>get_blob_client\<close> (scanner/core.py): the container and the blob that a path names;
  without a container the service has no client to give.
\<close>

definition get_blob_client :: "env \<Rightarrow> string \<Rightarrow> string option \<times> string" where
  "get_blob_client env p =
     (case split_first ''/'' p of
        Some (container, blob) \<Rightarrow> (Some container, blob)
      | None \<Rightarrow> (AZURE_CONTAINER env, p))"

text \<open>
  \<open>SidecarStore._save\<close>.  The source has no branch for \<open>TEST_MODE\<close> here, and it does
  not use its argument \<open>cloud\<close>.
\<close>

definition save :: "env \<Rightarrow> string \<Rightarrow> string \<Rightarrow> string \<Rightarrow> world \<Rightarrow> (error + unit) \<times> world" where
  "save env key data cl w =
     (case split_first ''/'' key of
        None \<Rightarrow> (Inl ValueError, w)
      | Some (container_or_bucket, blob) \<Rightarrow>
          if is_s3_bucket env container_or_bucket
          then (Inr (), w\<lparr>s3_objects := put (container_or_bucket, blob) data (s3_objects w)\<rparr>)
          else (case get_blob_client env (container_or_bucket @ ''/'' @ blob) of
                  (Some c, b) \<Rightarrow> (Inr (), w\<lparr>az_blobs := put (c, b) data (az_blobs w)\<rparr>)
                | (None, b) \<Rightarrow> (Inl ExternalError, w)))"

text \<open>\<open>SidecarStore._load\<close>: the body of the object, or the exception.\<close>

definition load :: "env \<Rightarrow> string \<Rightarrow> world \<Rightarrow> error + string" where
  "load env key w =
     (if TEST_MODE env then
        (case map_of (local_files w) (replace ''/'' ''__'' key) of
           None \<Rightarrow> Inl NotFound
         | Some body \<Rightarrow> Inr body)
      else
        (case split_first ''/'' key of
           None \<Rightarrow> Inl ValueError
         | Some (container_or_bucket, blob) \<Rightarrow>
             if is_s3_bucket env container_or_bucket
             then (case map_of (s3_objects w) (container_or_bucket, blob) of
                     None \<Rightarrow> Inl NotFound
                   | Some body \<Rightarrow> Inr body)
             else (case get_blob_client env (container_or_bucket @ ''/'' @ blob) of
                     (Some c, b) \<Rightarrow>
                       (case map_of (az_blobs w) (c, b) of
                          None \<Rightarrow> Inl NotFound
                        | Some body \<Rightarrow> Inr body)
                   | (None, b) \<Rightarrow> Inl ExternalError)))"

text \<open>
  \<open>SidecarStore.write_meta\<close>; the text is stored as its UTF-8 bytes, which is what a
  \<open>string\<close> holds.  \<open>cloud or meta.cloud\<close> takes the record's cloud for \<open>None\<close> and
  for the empty string.
\<close>

definition write_meta :: "env \<Rightarrow> FileMeta \<Rightarrow> string option \<Rightarrow> world \<Rightarrow> (error + unit) \<times> world" where
  "write_meta env meta cl w =
     (let cl' = (case cl of None \<Rightarrow> cloud meta | Some c \<Rightarrow> if c = [] then cloud meta else c);
          key = path meta @ SUFFIX
      in save env key (to_json meta) cl' w)"

text \<open>\<open>SidecarStore.get_meta\<close>: every exception is logged and becomes \<open>None\<close>.\<close>

definition get_meta :: "env \<Rightarrow> string \<Rightarrow> string \<Rightarrow> world \<Rightarrow> FileMeta option" where
  "get_meta env p cl w =
     (case load env (p @ SUFFIX) w of
        Inl e \<Rightarrow> None
      | Inr raw \<Rightarrow> from_json raw)"

text \<open>
  \<open>SidecarStore._iter_keys\<close>.  In test mode the files of the cache directory that match
  \<open>*__*.meta.json\<close>, their names with \<open>__\<close> replaced by \<open>/\<close>, under the prefix;
  otherwise the side-cars of the bucket and of the containers, where the prefix is one of
  the key inside the bucket or container.
\<close>

definition glob_match :: "string \<Rightarrow> bool" where
  "glob_match name \<longleftrightarrow>
     endswith name SUFFIX \<and> contains ''__'' (take (length name - length SUFFIX) name)"

definition iter_s3 :: "string \<Rightarrow> string \<Rightarrow> world \<Rightarrow> string list" where
  "iter_s3 bucket pre w =
     map (\<lambda>k. bucket @ ''/'' @ snd k)
       (filter (\<lambda>k. fst k = bucket \<and> startswith (snd k) pre \<and> snd k \<noteq> [] \<and> endswith (snd k) SUFFIX)
          (map fst (s3_objects w)))"

definition iter_azure :: "string \<Rightarrow> string \<Rightarrow> world \<Rightarrow> string list" where
  "iter_azure container pre w =
     map (\<lambda>k. container @ ''/'' @ snd k)
       (filter (\<lambda>k. fst k = container \<and> startswith (snd k) pre \<and> endswith (snd k) SUFFIX)
          (map fst (az_blobs w)))"

definition iter_keys :: "env \<Rightarrow> string \<Rightarrow> world \<Rightarrow> string list" where
  "iter_keys env pre w =
     (if TEST_MODE env then
        filter (\<lambda>p. startswith p pre)
          (map (replace ''__'' ''/'') (filter glob_match (map fst (local_files w))))
      else
        (case S3_BUCKET env of
           None \<Rightarrow> []
         | Some b \<Rightarrow> if b = [] then [] else iter_s3 b pre w)
        @ concat (map (\<lambda>c. case c of
                              None \<Rightarrow> []
                            | Some c' \<Rightarrow> if c' = [] then [] else iter_azure c' pre w)
                    [AZURE_CONTAINER env, Some ''feedback'']))"

text \<open>\<open>SidecarStore.read_all\<close>: a side-car that does not load or parse is skipped.\<close>

definition read_all :: "env \<Rightarrow> string \<Rightarrow> world \<Rightarrow> FileMeta list" where
  "read_all env pre w =
     List.map_filter
       (\<lambda>key. case load env key w of Inl e \<Rightarrow> None | Inr raw \<Rightarrow> from_json raw)
       (iter_keys env pre w)"

section \<open>The scanner (scanner/core.py)\<close>

text \<open>
  \<open>_download_head\<close>: the first \<open>SCAN_HEAD_SIZE\<close> bytes of the object, decoded; the
  callers use the text only.  A path without \<open>/\<close> is a key of the bucket of the
  environment.
\<close>

definition s3_address :: "env \<Rightarrow> string \<Rightarrow> string option \<times> string" where
  "s3_address env p =
     (case split_first ''/'' p of
        Some (bucket, key) \<Rightarrow> (Some bucket, key)
      | None \<Rightarrow> (S3_BUCKET env, p))"

definition download_head :: "env \<Rightarrow> string \<Rightarrow> string \<Rightarrow> trace \<Rightarrow> (error + string) \<times> trace" where
  "download_head env p cl tr =
     (if cl = ''s3'' then
        (case s3_address env p of
           (bucket, key) \<Rightarrow> ask_text (reply env) (S3GetRange bucket key (SCAN_HEAD_SIZE env)) tr)
      else
        (case get_blob_client env p of
           (container, blob) \<Rightarrow> ask_text (reply env) (AzDownload container blob (SCAN_HEAD_SIZE env)) tr))"

text \<open>
  The inner \<open>try\<close> of \<open>scan_object\<close>: size and content type of the object, or the
  defaults when the lookup raises.
\<close>

definition object_properties :: "env \<Rightarrow> string \<Rightarrow> string \<Rightarrow> trace \<Rightarrow> (int \<times> string) \<times> trace" where
  "object_properties env p cl tr =
     (if cl = ''s3'' then
        (case s3_address env p of
           (bucket, key) \<Rightarrow>
             (case ask (reply env) (S3Head bucket key) tr of
                (Props sz ct, tr') \<Rightarrow>
                  ((sz, case ct of None \<Rightarrow> ''application/octet-stream'' | Some t \<Rightarrow> t), tr')
              | (r, tr') \<Rightarrow> ((0, ''application/octet-stream''), tr')))
      else
        (case get_blob_client env p of
           (container, blob) \<Rightarrow>
             (case ask (reply env) (AzProps container blob) tr of
                (Props sz ct, tr') \<Rightarrow>
                  ((sz, case ct of
                          None \<Rightarrow> ''application/octet-stream''
                        | Some t \<Rightarrow> if t = [] then ''application/octet-stream'' else t), tr')
              | (r, tr') \<Rightarrow> ((0, ''application/octet-stream''), tr'))))"

text \<open>
  \<open>scan_object\<close>.  The head is downloaded before the \<open>try\<close>: a download that raises
  leaves \<open>scan_object\<close> as an exception.  Everything after it is inside the \<open>try\<close>,
  whose handler prints and returns.
\<close>

definition scan_object :: "env \<Rightarrow> string \<Rightarrow> string \<Rightarrow> world \<Rightarrow> (error + unit) \<times> world" where
  "scan_object env p cl w =
     (case download_head env p cl (trace w) of
        (Inl e, tr1) \<Rightarrow> (Inl e, w\<lparr>trace := tr1\<rparr>)
      | (Inr raw_head, tr1) \<Rightarrow>
          (case ask_text (reply env) (DescribeLLM p (upper cl) (strip raw_head)) tr1 of
             (Inl e, tr2) \<Rightarrow> (Inr (), w\<lparr>trace := tr2\<rparr>)
           | (Inr text, tr2) \<Rightarrow>
               (let desc = strip text in
                if 2 < length (words desc) then
                  (case object_properties env p cl tr2 of
                     ((sz, mime), tr3) \<Rightarrow>
                       (case ask (reply env) Now tr3 of
                          (Time now, tr4) \<Rightarrow>
                            (case write_meta env
                                    \<lparr>path = p, cloud = cl, title = basename p, description = desc,
                                      mime_type = mime, size_f = sz, last_scanned = now\<rparr>
                                    (Some cl) (w\<lparr>trace := tr4\<rparr>) of
                               (r, w') \<Rightarrow> (Inr (), w'))
                        | (r, tr4) \<Rightarrow> (Inr (), w\<lparr>trace := tr4\<rparr>)))
                else (Inr (), w\<lparr>trace := tr2\<rparr>))))"

section \<open>The describer (scanner/auto_desc.py)\<close>

text \<open>
  The two patterns, with \<open>re.I\<close> on the ASCII letters.  \<open>$\<close> matches at the end of
  the name and before a newline that ends it.
\<close>

definition before_final_newline :: "string \<Rightarrow> string" where
  "before_final_newline s = (if endswith s NL then butlast s else s)"

text \<open>\<open>re.search(r"(^|_)id$", c, re.I)\<close>.\<close>

definition is_id_name :: "string \<Rightarrow> bool" where
  "is_id_name c \<longleftrightarrow>
     (let l = before_final_newline (lower c) in l = ''id'' \<or> endswith l ''_id'')"

text \<open>\<open>re.search(r"date|_dt$", c, re.I)\<close>.\<close>

definition is_date_name :: "string \<Rightarrow> bool" where
  "is_date_name c \<longleftrightarrow>
     contains ''date'' (lower c) \<or> endswith (before_final_newline (lower c)) ''_dt''"

text \<open>The separators \<open>" \<cdot> "\<close> and \<open>"\<rightarrow>"\<close> of the source, as their UTF-8 bytes.\<close>

definition bits_separator :: string where
  "bits_separator = [CHR '' '', CHR 0xC2, CHR 0xB7, CHR '' '']"

definition range_arrow :: string where
  "range_arrow = [CHR 0xE2, CHR 0x86, CHR 0x92]"

text \<open>
  \<open>auto_describe\<close> after the preview has been parsed: \<open>cols\<close> are the columns of the
  data frame.  The default \<open>cols[0]\<close> of \<open>next\<close> is evaluated before the search, so a
  frame without columns raises \<open>IndexError\<close>.
\<close>

definition auto_describe_table :: "column list \<Rightarrow> error + string" where
  "auto_describe_table cols =
     (case cols of
        [] \<Rightarrow> Inl IndexError
      | c0 # rest \<Rightarrow>
          (let pk = (case filter (\<lambda>c. is_id_name (col_name c) \<and> is_unique c) cols of
                       [] \<Rightarrow> col_name c0
                     | c # cs \<Rightarrow> col_name c);
               fks = filter (\<lambda>n. is_id_name n \<and> n \<noteq> pk) (map col_name cols);
               ranges = List.map_filter
                 (\<lambda>c. if is_date_name (col_name c)
                       then (case date_range c of
                               None \<Rightarrow> None
                             | Some (lo, hi) \<Rightarrow> Some (col_name c @ '' '' @ lo @ range_arrow @ hi))
                       else None) cols;
               bits = [''PK='' @ pk] @ (if fks = [] then [] else [''FK='' @ join '','' fks]) @ ranges;
               line = join bits_separator bits
           in Inr (if line = [] then ''Table'' else line)))"


section \<open>Per-source query clients: the returned answer (client_s3.py, client_azure.py)\<close>





section \<open>Orchestrator: plan execution (client.py)\<close>

definition plan_steps :: "plan \<Rightarrow> step list" where
  "plan_steps p = (case steps p of None \<Rightarrow> [] | Some ss \<Rightarrow> ss)"

definition augment :: "string \<Rightarrow> string list \<Rightarrow> string" where
  "augment subq history =
     (if history = [] then subq
      else (NL @ NL @ ''----- PREVIOUS ANSWERS -----'' @ NL
            @ join (NL @ NL)
                (map (\<lambda>(i, ans). ''[step '' @ str_nat (i + 1) @ '']'' @ NL @ ans)
                   (enumerate 0 history))
            @ NL @ ''-----------------------------'' @ NL @ NL)
           @ subq)"

definition skipped_message :: "string \<Rightarrow> string" where
  "skipped_message subq =
     [CHR 0xE2, CHR 0x9A, CHR 0xA0, CHR 0xEF, CHR 0xB8, CHR 0x8F]
     @ '' Skipped step: missing cloud or dataset.'' @ NL @ subq"

definition enhanced_prompt :: "string \<Rightarrow> string \<Rightarrow> string \<Rightarrow> string" where
  "enhanced_prompt ds cl subq =
     strip (NL
       @ ''        You are a data extraction expert.'' @ NL
       @ ''        Your task is to answer the following question using ONLY the contents of the file (if it exists):'' @ NL
       @ ''        File: '' @ ds @ NL
       @ ''        Cloud: '' @ upper cl @ NL
       @ ''        QUESTION:'' @ subq @ NL
       @ ''        Return direct results from the file.'' @ NL
       @ ''        If the file is missing or not available, respond with:'' @ NL
       @ ''        No data found for file: '' @ ds)"

text \<open>\<open>not cloud or not dataset\<close>: a value is falsy when it is \<open>None\<close> or empty.\<close>

definition usable :: "step \<Rightarrow> (string \<times> string) option" where
  "usable st =
     (case (step_cloud st, step_dataset st) of
        (Some c, Some d) \<Rightarrow> if c = [] \<or> d = [] then None else Some (c, d)
      | _ \<Rightarrow> None)"

definition answer_call :: "string \<Rightarrow> string \<Rightarrow> string \<Rightarrow> call" where
  "answer_call c d subq =
     (if lower c = ''s3'' then S3Answer (enhanced_prompt d c subq) d
      else AzAnswer (enhanced_prompt d c subq) d)"

text \<open>
  The loop of \<open>_execute_plan\<close>, with \<open>results\<close> and \<open>history\<close> as accumulators.  A
  per-source \<open>answer\<close> that raises ends the loop: nothing in \<open>_execute_plan\<close> catches it.
\<close>

fun execute_steps ::
  "reply_fn \<Rightarrow> step list \<Rightarrow> (string \<times> string) list \<Rightarrow> string list \<Rightarrow> trace
    \<Rightarrow> (error + (string \<times> string) list) \<times> trace" where
  "execute_steps orc [] results history tr = (Inr results, tr)"
| "execute_steps orc (st # rest) results history tr =
     (let subq = augment (sub_question st) history in
      case usable st of
        None \<Rightarrow> execute_steps orc rest (results @ [(''error'', skipped_message subq)]) history tr
      | Some (c, d) \<Rightarrow>
          (case ask_text orc (answer_call c d subq) tr of
             (Inl e, tr') \<Rightarrow> (Inl e, tr')
           | (Inr out, tr') \<Rightarrow> execute_steps orc rest (results @ [(c, out)]) (history @ [out]) tr'))"

definition execute_plan :: "reply_fn \<Rightarrow> plan \<Rightarrow> trace \<Rightarrow> (error + (string \<times> string) list) \<times> trace" where
  "execute_plan orc p tr = execute_steps orc (plan_steps p) [] [] tr"

subsection \<open>Discovery, planning and merging\<close>

text \<open>
  \<open>_list_meta\<close> of the two clients, as the orchestrator imports them: the keys of the
  bucket or container that are no side-cars, each as the dictionary the client builds.
\<close>

type_synonym meta_dict = "(string \<times> string) list"

definition list_s3_meta :: "env \<Rightarrow> trace \<Rightarrow> (error + meta_dict list) \<times> trace" where
  "list_s3_meta env tr =
     (case ask_names (reply env) (ListS3 (S3_BUCKET env)) tr of
        (Inl e, tr') \<Rightarrow> (Inl e, tr')
      | (Inr keys, tr') \<Rightarrow>
          (Inr (map (\<lambda>key. [(''path'', key), (''title'', key)])
                  (filter (\<lambda>key. \<not> endswith key ''.meta.json'') keys)), tr'))"

definition list_az_meta :: "env \<Rightarrow> trace \<Rightarrow> (error + meta_dict list) \<times> trace" where
  "list_az_meta env tr =
     (case ask_names (reply env) (ListAz (AZURE_CONTAINER env)) tr of
        (Inl e, tr') \<Rightarrow> (Inl e, tr')
      | (Inr names, tr') \<Rightarrow>
          (Inr (map (\<lambda>name. [(''path'', name), (''title'', name), (''description'', [])])
                  (filter (\<lambda>name. \<not> endswith name ''.meta.json'') names)), tr'))"

definition meta_path :: "meta_dict \<Rightarrow> string" where
  "meta_path m = (case map_of m ''path'' of None \<Rightarrow> [] | Some p \<Rightarrow> p)"


text \<open>
  The loop of \<open>_build_dataset_and_schema_blocks\<close>.  Its state is the three lists and the
  variable \<open>head_text\<close>, which is unbound (\<open>None\<close>) until a download has succeeded: the
  handler of the \<open>try\<close> reads it, and reading it unbound raises \<open>UnboundLocalError\<close> out
  of the handler.  The bucket is listed again for every file, by \<open>meta in list_s3_meta()\<close>.
\<close>

type_synonym blocks_state = "string list \<times> string list \<times> (string \<times> string) list \<times> string option"

fun blocks_loop :: "env \<Rightarrow> meta_dict list \<Rightarrow> blocks_state \<Rightarrow> trace \<Rightarrow> (error + blocks_state) \<times> trace" where
  "blocks_loop env [] st tr = (Inr st, tr)"
| "blocks_loop env (meta # rest) (dataset_lines, schema_lines, all_files, head_text) tr =
     (let p = meta_path meta in
      case list_s3_meta env tr of
        (Inl e, tr1) \<Rightarrow> (Inl e, tr1)
      | (Inr s3_metas, tr1) \<Rightarrow>
          (let cl = (if meta \<in> set s3_metas then ''s3'' else ''azure'');
               all_files' = all_files @ [(p, cl)]
           in case download_head env p cl tr1 of
                (Inl e, tr2) \<Rightarrow>
                  (case head_text of
                     None \<Rightarrow> (Inl UnboundLocalError, tr2)
                   | Some h \<Rightarrow>
                       blocks_loop env rest (dataset_lines, schema_lines, all_files', Some h) tr2)
              | (Inr h, tr2) \<Rightarrow>
                  (case read_csv_columns env h of
                     None \<Rightarrow>
                       blocks_loop env rest (dataset_lines, schema_lines, all_files', Some h) tr2
                   | Some cols \<Rightarrow>
                       blocks_loop env rest
                         (dataset_lines @ [''- '' @ p @ '' ('' @ cl @ ''): columns: '' @ join '', '' (take 5 cols)],
                          (if 2 \<le> length cols
                           then schema_lines @ [''- '' @ p @ '' ('' @ cl @ ''): columns = '' @ join '', '' (take 10 cols)]
                           else schema_lines),
                          all_files', Some h) tr2)))"

definition build_dataset_and_schema_blocks ::
  "env \<Rightarrow> trace \<Rightarrow> (error + string \<times> string \<times> (string \<times> string) list) \<times> trace" where
  "build_dataset_and_schema_blocks env tr =
     (case list_s3_meta env tr of
        (Inl e, tr1) \<Rightarrow> (Inl e, tr1)
      | (Inr s3_metas, tr1) \<Rightarrow>
          (case list_az_meta env tr1 of
             (Inl e, tr2) \<Rightarrow> (Inl e, tr2)
           | (Inr az_metas, tr2) \<Rightarrow>
               (case blocks_loop env (s3_metas @ az_metas) ([], [], [], None) tr2 of
                  (Inl e, tr3) \<Rightarrow> (Inl e, tr3)
                | (Inr (dataset_lines, schema_lines, all_files, head_text), tr3) \<Rightarrow>
                    (Inr (join NL dataset_lines, join NL schema_lines, all_files), tr3))))"

text \<open>
  \<open>_plan\<close>: the planner's response, parsed by \<open>json.loads\<close>; a response that is no
  plan raises.
\<close>

definition plan_call :: "env \<Rightarrow> string \<Rightarrow> string \<Rightarrow> string \<Rightarrow> (string \<times> string) list \<Rightarrow> trace
    \<Rightarrow> (error + plan) \<times> trace" where
  "plan_call env question dataset_block schema_block metas tr =
     (case ask (reply env) (PlanLLM question dataset_block schema_block metas) tr of
        (Plan p, tr') \<Rightarrow> (Inr p, tr')
      | (r, tr') \<Rightarrow> (Inl ExternalError, tr'))"

text \<open>\<open>_merge_step\<close>; its prompt does not use the question.\<close>

definition merge_step :: "reply_fn \<Rightarrow> string \<Rightarrow> string \<Rightarrow> string \<Rightarrow> string \<Rightarrow> string \<Rightarrow> trace
    \<Rightarrow> (error + string) \<times> trace" where
  "merge_step orc question prev_ans this_ans prev_cloud this_cloud tr =
     (case ask_text orc (MergeLLM prev_cloud prev_ans this_cloud this_ans) tr of
        (Inl e, tr') \<Rightarrow> (Inl e, tr')
      | (Inr text, tr') \<Rightarrow> (Inr (strip text), tr'))"

text \<open>The pre-scan loops of \<open>answer\<close>: a file without a readable side-car is scanned.\<close>

fun prescan_loop :: "env \<Rightarrow> string \<Rightarrow> string option \<Rightarrow> meta_dict list \<Rightarrow> world \<Rightarrow> (error + unit) \<times> world" where
  "prescan_loop env cl root [] w = (Inr (), w)"
| "prescan_loop env cl root (meta # rest) w =
     (let full_path = fmt root @ ''/'' @ meta_path meta in
      if get_meta env full_path cl w \<noteq> None then prescan_loop env cl root rest w
      else case scan_object env full_path cl w of
             (Inl e, w') \<Rightarrow> (Inl e, w')
           | (Inr u, w') \<Rightarrow> prescan_loop env cl root rest w')"

definition prescan :: "env \<Rightarrow> world \<Rightarrow> (error + unit) \<times> world" where
  "prescan env w =
     (case list_s3_meta env (trace w) of
        (Inl e, tr1) \<Rightarrow> (Inl e, w\<lparr>trace := tr1\<rparr>)
      | (Inr s3_metas, tr1) \<Rightarrow>
          (case prescan_loop env ''s3'' (S3_BUCKET env) s3_metas (w\<lparr>trace := tr1\<rparr>) of
             (Inl e, w1) \<Rightarrow> (Inl e, w1)
           | (Inr u, w1) \<Rightarrow>
               (case list_az_meta env (trace w1) of
                  (Inl e, tr2) \<Rightarrow> (Inl e, w1\<lparr>trace := tr2\<rparr>)
                | (Inr az_metas, tr2) \<Rightarrow>
                    prescan_loop env ''azure'' (AZURE_CONTAINER env) az_metas (w1\<lparr>trace := tr2\<rparr>))))"

text \<open>
  \<open>answer\<close> up to the planner's response: the pre-scan, \<open>store.read_all()\<close> (whose
  result is dropped), the blocks and the planner.
\<close>

definition plan_stage :: "env \<Rightarrow> string \<Rightarrow> world \<Rightarrow> (error + plan) \<times> world" where
  "plan_stage env question w =
     (case prescan env w of
        (Inl e, w1) \<Rightarrow> (Inl e, w1)
      | (Inr u, w1) \<Rightarrow>
          (let metas = read_all env [] w1 in
           case build_dataset_and_schema_blocks env (trace w1) of
             (Inl e, tr2) \<Rightarrow> (Inl e, w1\<lparr>trace := tr2\<rparr>)
           | (Inr (dataset_block, schema_block, files), tr2) \<Rightarrow>
               (case plan_call env question dataset_block schema_block files tr2 of
                  (Inl e, tr3) \<Rightarrow> (Inl e, w1\<lparr>trace := tr3\<rparr>)
                | (Inr p, tr3) \<Rightarrow> (Inr p, w1\<lparr>trace := tr3\<rparr>))))"

text \<open>The fold of \<open>_merge_step\<close> over the results after the first.\<close>

fun merge_all :: "reply_fn \<Rightarrow> string \<Rightarrow> string \<Rightarrow> string \<Rightarrow> (string \<times> string) list \<Rightarrow> trace
    \<Rightarrow> (error + string) \<times> trace" where
  "merge_all orc question merged prev_cloud [] tr = (Inr merged, tr)"
| "merge_all orc question merged prev_cloud ((cl, out) # rest) tr =
     (case merge_step orc question merged out prev_cloud cl tr of
        (Inl e, tr') \<Rightarrow> (Inl e, tr')
      | (Inr m, tr') \<Rightarrow> merge_all orc question m cl rest tr')"

definition no_plan_message :: string where
  "no_plan_message = ''I couldn'' @ [CHR 0x27] @ ''t create an execution plan for your query.''"

text \<open>\<open>answer\<close> of the orchestrator.\<close>

definition answer :: "env \<Rightarrow> string \<Rightarrow> world \<Rightarrow> (error + string) \<times> world" where
  "answer env question w =
     (case plan_stage env question w of
        (Inl e, w1) \<Rightarrow> (Inl e, w1)
      | (Inr p, w1) \<Rightarrow>
          if plan_steps p = [] then (Inr no_plan_message, w1)
          else
            (case execute_plan (reply env) p (trace w1) of
               (Inl e, tr2) \<Rightarrow> (Inl e, w1\<lparr>trace := tr2\<rparr>)
             | (Inr results, tr2) \<Rightarrow>
                 (case results of
                    [] \<Rightarrow> (Inl IndexError, w1\<lparr>trace := tr2\<rparr>)
                  | [(cl, out)] \<Rightarrow> (Inr out, w1\<lparr>trace := tr2\<rparr>)
                  | (cl, out) # rest \<Rightarrow>
                      (case merge_all (reply env) question out cl rest tr2 of
                         (r, tr3) \<Rightarrow> (r, w1\<lparr>trace := tr3\<rparr>)))))"


section \<open>Per-source query clients: pre-scan and description cache\<close>


subsection \<open>Amazon S3 (aws_s3/client_s3.py)\<close>










subsection \<open>Azure Blob Storage (azure_blob/client_azure.py)\<close>







section \<open>Observing an execution\<close>

text \<open>
  What the claims about plan execution speak of: the prompt of a dispatched call, the answer
  it received, the steps that are dispatched at all, and the calls that a run added to the
  trace.
\<close>

fun call_prompt :: "call \<Rightarrow> string" where
  "call_prompt (S3Answer p t) = p"
| "call_prompt (AzAnswer p t) = p"
| "call_prompt _ = []"

fun answer_of :: "call \<times> response \<Rightarrow> string" where
  "answer_of (c, Text s) = s"
| "answer_of (c, _) = []"

definition dispatched :: "step \<Rightarrow> bool" where
  "dispatched st \<longleftrightarrow> usable st \<noteq> None"

definition new_events :: "trace \<Rightarrow> trace \<Rightarrow> trace" where
  "new_events tr tr' = drop (length tr) tr'"

definition ex_reply :: reply_fn where
  "ex_reply tr c = Text ''42''"

definition ex_plan :: plan where
  "ex_plan = \<lparr>steps = Some
     [\<lparr>step_cloud = Some ''s3'', sub_question = ''q1'', step_dataset = Some ''a.csv''\<rparr>,
      \<lparr>step_cloud = None, sub_question = ''q0'', step_dataset = Some ''c.csv''\<rparr>,
      \<lparr>step_cloud = Some ''azure'', sub_question = ''q2'', step_dataset = Some ''b.csv''\<rparr>]\<rparr>"

text \<open>
  Two records as \<open>scan_object\<close> builds them: \<open>datetime.now()\<close> has microseconds, a
  timestamp read back from a side-car has none.
\<close>

definition ex_stamp :: datetime where
  "ex_stamp = \<lparr>year = 2024, month = 2, day = 29, hour = 13, minute = 5, second = 9,
     microsecond = 123456\<rparr>"

definition ex_meta :: FileMeta where
  "ex_meta = \<lparr>path = ''bucket/orders.csv'', cloud = ''s3'', title = ''orders.csv'',
     description = ''Orders with customer ids'', mime_type = ''text/csv'', size_f = 2048,
     last_scanned = ex_stamp\<rparr>"

definition ex_meta_seconds :: FileMeta where
  "ex_meta_seconds = ex_meta\<lparr>last_scanned := ex_stamp\<lparr>microsecond := 0\<rparr>\<rparr>"

text \<open>
  An environment with a bucket and a container, a world in which nothing is stored yet,
  and the same environment in test mode.
\<close>

definition ex_env :: env where
  "ex_env = \<lparr>S3_BUCKET = Some ''bucket'', AZURE_CONTAINER = Some ''files.example'',
     TEST_MODE = False, SCAN_HEAD_SIZE = 65536, reply = ex_reply,
     read_csv_columns = (\<lambda>t. None), description_lines = (\<lambda>t. []),
     kv_groups = (\<lambda>t. None)\<rparr>"

definition ex_env_test :: env where
  "ex_env_test = ex_env\<lparr>TEST_MODE := True\<rparr>"

definition empty_world :: world where
  "empty_world = \<lparr>s3_objects = [], az_blobs = [], local_files = [], trace = []\<rparr>"


text \<open>
  The calls that execute a step of a plan, and the calls that merge two answers.  A run is
  \<open>quiet\<close> between two traces when it added calls of neither kind.
\<close>

fun is_step_call :: "call \<Rightarrow> bool" where
  "is_step_call (S3Answer p t) = True"
| "is_step_call (AzAnswer p t) = True"
| "is_step_call c = False"

fun is_merge_call :: "call \<Rightarrow> bool" where
  "is_merge_call (MergeLLM pc pa tc ta) = True"
| "is_merge_call c = False"

definition quiet :: "trace \<Rightarrow> trace \<Rightarrow> bool" where
  "quiet tr tr' \<longleftrightarrow>
     (\<exists>evs. tr' = tr @ evs \<and> list_all (\<lambda>ev. \<not> is_step_call (fst ev) \<and> \<not> is_merge_call (fst ev)) evs)"

text \<open>
  A world in which the bucket and the container are empty and the planner answers with a
  given plan; every other model call answers \<open>42\<close>.
\<close>

definition ex_reply_plan :: "plan \<Rightarrow> reply_fn" where
  "ex_reply_plan p tr c =
     (case c of
        ListS3 b \<Rightarrow> Names []
      | ListAz b \<Rightarrow> Names []
      | PlanLLM q d s f \<Rightarrow> Plan p
      | _ \<Rightarrow> Text ''42'')"

definition ex_env_plan :: "plan \<Rightarrow> env" where
  "ex_env_plan p = ex_env\<lparr>reply := ex_reply_plan p\<rparr>"

definition ex_planned :: "plan \<Rightarrow> world" where
  "ex_planned p = empty_world\<lparr>trace :=
     [(ListS3 (Some ''bucket''), Names []), (ListAz (Some ''files.example''), Names []),
      (ListS3 (Some ''bucket''), Names []), (ListAz (Some ''files.example''), Names []),
      (PlanLLM ''How many orders?'' [] [] [], Plan p)]\<rparr>"

definition ex_one_step :: step where
  "ex_one_step = \<lparr>step_cloud = Some ''s3'', sub_question = ''How many rows?'',
     step_dataset = Some ''orders.csv''\<rparr>"

text \<open>
  A world with two objects in the bucket, in which the download of the first one raises
  and every other call succeeds.
\<close>

definition ex_reply_fail :: reply_fn where
  "ex_reply_fail tr c =
     (case c of
        ListS3 b \<Rightarrow> Names [''a.csv'', ''b.csv'']
      | ListAz b \<Rightarrow> Names []
      | S3GetRange b k n \<Rightarrow> if k = ''a.csv'' then Fails else Text ''order_id,total''
      | _ \<Rightarrow> Text ''42'')"

definition ex_env_fail :: env where
  "ex_env_fail = ex_env\<lparr>reply := ex_reply_fail\<rparr>"





text \<open>
  \<open>rewrote env q w w'\<close>: between the two worlds the store changed at most in the record
  of \<open>q\<close>, and if it did, that record is now what some record with path \<open>q\<close> reads
  back as.
\<close>

definition rewrote :: "env \<Rightarrow> string \<Rightarrow> world \<Rightarrow> world \<Rightarrow> bool" where
  "rewrote env q w w' \<longleftrightarrow>
     (\<forall>p. get_meta env p [] w' = get_meta env p [] w
        \<or> (p = q \<and> (\<exists>m. path m = q \<and> get_meta env p [] w' = from_json (to_json m))))"








section \<open>The side-car format: timestamps\<close>

subsection \<open>Decimal digits\<close>

lemma digit_val_digit_char: "d < 10 \<Longrightarrow> digit_val (digit_char d) = Some d"
  by (simp add: digit_val_def digit_char_def Let_def)

lemma is_digit_digit_char: "d < 10 \<Longrightarrow> is_digit (digit_char d)"
  by (simp add: is_digit_def digit_val_digit_char)

lemma digit_char_zero: "digit_char 0 = CHR ''0''"
  by code_simp

lemma digit_val_zero: "digit_val CHR ''0'' = Some 0"
  by (simp add: digit_val_def)

lemma is_digit_zero: "is_digit CHR ''0''"
  by (simp add: is_digit_def digit_val_zero)

lemma digit_char_eq_zero: "d < 10 \<Longrightarrow> digit_char d = CHR ''0'' \<longleftrightarrow> d = 0"
proof -
  assume d: "d < 10"
  have "digit_val (digit_char d) = Some d" using d by (rule digit_val_digit_char)
  moreover have "digit_val (CHR ''0'') = Some 0" by (simp add: digit_val_def)
  ultimately show ?thesis by (auto simp: digit_char_zero)
qed

lemma digits_val_snoc:
  "digits_val (ds @ [c]) = 10 * digits_val ds + (case digit_val c of None \<Rightarrow> 0 | Some d \<Rightarrow> d)"
  by (simp add: digits_val_def)

lemma str_nat_nonempty: "str_nat n \<noteq> []"
  by (subst str_nat.simps) simp

lemma str_nat_digits: "list_all is_digit (str_nat n)"
proof (induction n rule: str_nat.induct)
  case (1 n)
  show ?case
  proof (cases "n < 10")
    case True
    then show ?thesis by (subst str_nat.simps) (simp add: is_digit_digit_char)
  next
    case False
    with 1 have "list_all is_digit (str_nat (n div 10))" by simp
    moreover have "is_digit (digit_char (n mod 10))" by (simp add: is_digit_digit_char)
    ultimately show ?thesis using False by (subst str_nat.simps) simp
  qed
qed

lemma digits_val_str_nat: "digits_val (str_nat n) = n"
proof (induction n rule: str_nat.induct)
  case (1 n)
  show ?case
  proof (cases "n < 10")
    case True
    then show ?thesis
      by (subst str_nat.simps) (simp add: digits_val_def digit_val_digit_char)
  next
    case False
    with 1 have "digits_val (str_nat (n div 10)) = n div 10" by simp
    then show ?thesis using False
      by (subst str_nat.simps) (simp add: digits_val_snoc digit_val_digit_char)
  qed
qed

lemma hd_str_nat: "1 < length (str_nat n) \<Longrightarrow> hd (str_nat n) \<noteq> CHR ''0''"
proof (induction n rule: str_nat.induct)
  case (1 n)
  show ?case
  proof (cases "n < 10")
    case True
    with "1.prems" show ?thesis by (subst (asm) str_nat.simps) simp
  next
    case False
    have eq: "str_nat n = str_nat (n div 10) @ [digit_char (n mod 10)]"
      using False by (subst str_nat.simps) simp
    have hd: "hd (str_nat n) = hd (str_nat (n div 10))"
      using eq str_nat_nonempty[of "n div 10"] by simp
    show ?thesis
    proof (cases "n div 10 < 10")
      case True
      then have "str_nat (n div 10) = [digit_char (n div 10)]"
        by (subst str_nat.simps) simp
      moreover have "n div 10 \<noteq> 0" using False by simp
      ultimately show ?thesis using hd True by (simp add: digit_char_eq_zero)
    next
      case F2: False
      have "1 < length (str_nat (n div 10))"
        using F2 str_nat_nonempty[of "n div 10 div 10"]
        by (subst str_nat.simps) (simp add: Suc_lessI)
      with 1 False hd show ?thesis by simp
    qed
  qed
qed

lemma length_str_nat: "0 < k \<Longrightarrow> n < 10 ^ k \<Longrightarrow> length (str_nat n) \<le> k"
proof (induction n arbitrary: k rule: str_nat.induct)
  case (1 n)
  show ?case
  proof (cases "n < 10")
    case True
    then show ?thesis using "1.prems" by (subst str_nat.simps) simp
  next
    case False
    obtain k' where k: "k = Suc k'" using "1.prems"(1) by (cases k) auto
    have "k' \<noteq> 0" using False "1.prems"(2) k by (cases k') auto
    moreover have "n div 10 < 10 ^ k'" using "1.prems"(2) k
      by (simp add: less_mult_imp_div_less mult.commute)
    ultimately have "length (str_nat (n div 10)) \<le> k'" using 1 False by simp
    then show ?thesis using False k by (subst str_nat.simps) simp
  qed
qed

lemma digits_val_zeros: "digits_val (replicate k CHR ''0'' @ ds) = digits_val ds"
proof -
  have "foldl (\<lambda>acc c. 10 * acc + (case digit_val c of None \<Rightarrow> 0 | Some d \<Rightarrow> d)) 0 (replicate k CHR ''0'') = 0"
    by (induction k) (simp_all add: digit_val_zero)
  then show ?thesis by (simp add: digits_val_def)
qed

lemma zero_pad_digits: "list_all is_digit (zero_pad k n)"
  using str_nat_digits[of n] by (auto simp: zero_pad_def is_digit_zero list_all_iff)

lemma length_zero_pad: "0 < k \<Longrightarrow> n < 10 ^ k \<Longrightarrow> length (zero_pad k n) = k"
  using length_str_nat[of k n] by (simp add: zero_pad_def)

lemma field_zero_pad:
  assumes "0 < k" and "n < 10 ^ k"
  shows "field k (zero_pad k n @ rest) = Some (n, rest)"
proof -
  have len: "length (zero_pad k n) = k" using assms by (rule length_zero_pad)
  have "digits_val (zero_pad k n) = n"
    by (simp add: zero_pad_def digits_val_zeros digits_val_str_nat)
  then show ?thesis using len zero_pad_digits[of k n] by (simp add: field_def)
qed

lemma field_4: "n < 10000 \<Longrightarrow> field 4 (zero_pad 4 n @ rest) = Some (n, rest)"
  using field_zero_pad[of 4 n rest] by simp

lemma field_2: "n < 100 \<Longrightarrow> field 2 (zero_pad 2 n @ rest) = Some (n, rest)"
  using field_zero_pad[of 2 n rest] by simp

lemma strptime_strftime:
  assumes "valid_datetime dt"
  shows "strptime (strftime dt) = Some (dt\<lparr>microsecond := 0\<rparr>)"
proof -
  from assms have b: "year dt < 10000" "month dt < 100" "day dt < 100"
    "hour dt < 100" "minute dt < 100" "second dt < 100"
    by (auto simp: valid_datetime_def days_in_month_def split: if_splits)
  have v: "valid_datetime \<lparr>year = year dt, month = month dt, day = day dt, hour = hour dt,
      minute = minute dt, second = second dt, microsecond = 0\<rparr>"
    using assms by (simp add: valid_datetime_def)
  show ?thesis
    unfolding strptime_def strftime_def
    using v b by (simp add: field_4 field_2 literal_def)
qed

section \<open>The side-car format: JSON text\<close>

subsection \<open>JSON strings\<close>

lemma hex_val_hex_char: "n < 16 \<Longrightarrow> hex_val (hex_char n) = Some n"
  by (auto simp: hex_val_def hex_char_def Let_def)

lemma scan_escape_u:
  assumes "n < 32"
  shows "scan_string Plain ([CHR 0x5C, CHR ''u'', CHR ''0'', CHR ''0'', hex_char (n div 16), hex_char (n mod 16)] @ t)
    = cons_result (char_of n) (scan_string Plain t)"
proof -
  have h0: "hex_val CHR ''0'' = Some 0" by (simp add: hex_val_def)
  have h1: "hex_val (hex_char (n div 16)) = Some (n div 16)"
    using assms by (simp add: hex_val_hex_char)
  have h2: "hex_val (hex_char (n mod 16)) = Some (n mod 16)"
    by (simp add: hex_val_hex_char)
  have "16 * (n div 16) + n mod 16 = n" by simp
  then show ?thesis using assms by (simp add: h0 h1 h2)
qed

lemma char_eq_char_of: "of_char c = (n::nat) \<Longrightarrow> c = char_of n"
proof -
  assume h: "of_char c = n"
  have "char_of (of_char c :: nat) = c" by simp
  with h show ?thesis by simp
qed

lemma ctl_chars:
  "char_of (8::nat) = CHR 0x08" "char_of (12::nat) = CHR 0x0C" "char_of (10::nat) = CHR 0x0A"
  "char_of (13::nat) = CHR 0x0D" "char_of (9::nat) = CHR 0x09"
  by code_simp+

lemma scan_escape_char:
  "scan_string Plain (escape_char c @ t) = cons_result c (scan_string Plain t)"
proof (cases "c = CHR 0x5C \<or> c = CHR 0x22")
  case True
  then show ?thesis by (auto simp: escape_char_def unescape_def)
next
  case False
  then have ne: "c \<noteq> CHR 0x5C" "c \<noteq> CHR 0x22" by simp_all
  let ?n = "of_char c :: nat"
  show ?thesis
  proof (cases "?n < 32")
    case ctl: True
    show ?thesis
    proof (cases "?n \<in> {8, 12, 10, 13, 9}")
      case True
      then have "c \<in> {char_of (8::nat), char_of (12::nat), char_of (10::nat), char_of (13::nat), char_of (9::nat)}"
        using char_eq_char_of[of c 8] char_eq_char_of[of c 12] char_eq_char_of[of c 10]
          char_eq_char_of[of c 13] char_eq_char_of[of c 9] by auto
      then have "c \<in> {CHR 0x08, CHR 0x0C, CHR 0x0A, CHR 0x0D, CHR 0x09}"
        unfolding ctl_chars .
      then show ?thesis by (auto simp: escape_char_def unescape_def)
    next
      case False
      then have "escape_char c = [CHR 0x5C, CHR ''u'', CHR ''0'', CHR ''0'', hex_char (?n div 16), hex_char (?n mod 16)]"
        using ctl ne by (simp add: escape_char_def Let_def)
      then show ?thesis using scan_escape_u[OF ctl, of t] by simp
    qed
  next
    case False
    then have "escape_char c = [c]" using ne by (auto simp: escape_char_def Let_def)
    then show ?thesis using False ne by simp
  qed
qed


lemma scan_string_escaped:
  "scan_string Plain (concat (map escape_char s) @ CHR 0x22 # rest) = Some (s, rest)"
proof (induction s)
  case Nil
  show ?case by simp
next
  case (Cons c s)
  have "scan_string Plain (concat (map escape_char (c # s)) @ CHR 0x22 # rest)
      = scan_string Plain (escape_char c @ (concat (map escape_char s) @ CHR 0x22 # rest))"
    by simp
  also have "\<dots> = cons_result c (scan_string Plain (concat (map escape_char s) @ CHR 0x22 # rest))"
    by (rule scan_escape_char)
  also have "\<dots> = Some (c # s, rest)"
    using Cons.IH by (simp add: cons_result_def)
  finally show ?case .
qed

lemma scan_dumps_string:
  "scan_string Plain (tl (dumps_string s) @ rest) = Some (s, rest)"
  using scan_string_escaped[of s rest] by (simp add: dumps_string_def)

lemma dumps_string_hd: "dumps_string s = CHR 0x22 # tl (dumps_string s)"
  by (simp add: dumps_string_def)

subsection \<open>JSON integers\<close>

lemma takeWhile_digits:
  "list_all is_digit ds \<Longrightarrow> number_end rest \<Longrightarrow> takeWhile is_digit (ds @ rest) = ds"
  by (cases rest) (auto simp: number_end_def list_all_iff takeWhile_append)

lemma dropWhile_digits:
  "list_all is_digit ds \<Longrightarrow> number_end rest \<Longrightarrow> dropWhile is_digit (ds @ rest) = rest"
  by (cases rest) (auto simp: number_end_def list_all_iff dropWhile_append)

lemma not_digit_minus: "\<not> is_digit CHR ''-''"
  by (simp add: is_digit_def digit_val_def)

lemma hd_str_nat_not_minus: "hd (str_nat n) \<noteq> CHR ''-''"
proof -
  have "is_digit (hd (str_nat n))"
    using str_nat_digits[of n] str_nat_nonempty[of n] by (cases "str_nat n") simp_all
  then show ?thesis using not_digit_minus by auto
qed

lemma parse_int_str_nat:
  assumes "number_end rest"
  shows "parse_int (str_nat n @ rest) = Some (int n, rest)"
proof -
  have ne: "str_nat n \<noteq> []" by (rule str_nat_nonempty)
  have hd: "hd (str_nat n @ rest) \<noteq> CHR ''-''" using ne hd_str_nat_not_minus[of n] by simp
  have tw: "takeWhile is_digit (str_nat n @ rest) = str_nat n"
    using takeWhile_digits[OF str_nat_digits assms] .
  have dw: "dropWhile is_digit (str_nat n @ rest) = rest"
    using dropWhile_digits[OF str_nat_digits assms] .
  have lead: "\<not> (1 < length (str_nat n) \<and> hd (str_nat n) = CHR ''0'')"
    using hd_str_nat[of n] by auto
  have fl: "\<not> (rest \<noteq> [] \<and> hd rest \<in> {CHR ''.'', CHR ''e'', CHR ''E''})"
    using assms by (auto simp: number_end_def)
  show ?thesis
    unfolding parse_int_def Let_def
    using hd ne lead fl by (simp add: tw dw digits_val_str_nat)
qed

lemma parse_int_str_int:
  assumes "number_end rest"
  shows "parse_int (str_int i @ rest) = Some (i, rest)"
proof (cases "i < 0")
  case False
  then show ?thesis using parse_int_str_nat[OF assms, of "nat i"] by (simp add: str_int_def)
next
  case True
  have ne: "str_nat (nat (- i)) \<noteq> []" by (rule str_nat_nonempty)
  have tw: "takeWhile is_digit (str_nat (nat (- i)) @ rest) = str_nat (nat (- i))"
    using takeWhile_digits[OF str_nat_digits assms] .
  have dw: "dropWhile is_digit (str_nat (nat (- i)) @ rest) = rest"
    using dropWhile_digits[OF str_nat_digits assms] .
  have lead: "\<not> (1 < length (str_nat (nat (- i))) \<and> hd (str_nat (nat (- i))) = CHR ''0'')"
    using hd_str_nat[of "nat (- i)"] by auto
  have fl: "\<not> (rest \<noteq> [] \<and> hd rest \<in> {CHR ''.'', CHR ''e'', CHR ''E''})"
    using assms by (auto simp: number_end_def)
  have "parse_int (CHR ''-'' # str_nat (nat (- i)) @ rest) = Some (- int (nat (- i)), rest)"
    unfolding parse_int_def Let_def
    using ne lead fl by (simp add: tw dw digits_val_str_nat)
  then show ?thesis using True by (simp add: str_int_def)
qed


subsection \<open>JSON objects\<close>

lemma str_int_nonempty: "str_int i \<noteq> []"
  using str_nat_nonempty by (simp add: str_int_def)

lemma hd_str_nat_digit: "is_digit (hd (str_nat n))"
  using str_nat_digits[of n] str_nat_nonempty[of n] by (cases "str_nat n") simp_all

lemma hd_str_int: "hd (str_int i) = CHR ''-'' \<or> is_digit (hd (str_int i))"
  using hd_str_nat_digit by (simp add: str_int_def)

lemma not_digit_quote: "\<not> is_digit (CHR 0x22)"
  by (simp add: is_digit_def digit_val_def)

lemma digit_not_ws: "is_digit c \<Longrightarrow> \<not> is_json_ws c"
  by (auto simp: is_digit_def digit_val_def is_json_ws_def Let_def split: if_splits)

lemma hd_dumps_value_cases:
  "dumps_value v \<noteq> [] \<and>
   (hd (dumps_value v) = CHR 0x22 \<or> hd (dumps_value v) = CHR ''-'' \<or> is_digit (hd (dumps_value v)))"
  using str_int_nonempty hd_str_int by (cases v) (auto simp: dumps_string_def)

lemma skip_ws_dumps_value: "skip_ws (dumps_value v @ rest) = dumps_value v @ rest"
proof -
  obtain c cs where v: "dumps_value v = c # cs"
    using hd_dumps_value_cases[of v] by (cases "dumps_value v") auto
  then have "c = CHR 0x22 \<or> c = CHR ''-'' \<or> is_digit c"
    using hd_dumps_value_cases[of v] by simp
  then have "\<not> is_json_ws c"
    using digit_not_ws by (auto simp: is_json_ws_def)
  then show ?thesis using v by (simp add: skip_ws_def)
qed

lemma parse_value_dumps:
  assumes "number_end rest"
  shows "parse_value (dumps_value v @ rest) = Some (v, rest)"
proof (cases v)
  case (JString s)
  have eq: "dumps_value v @ rest = CHR 0x22 # (tl (dumps_string s) @ rest)"
    using JString dumps_string_hd[of s] by (metis append_Cons dumps_value.simps(1))
  have "parse_value (CHR 0x22 # (tl (dumps_string s) @ rest)) = Some (v, rest)"
    using JString by (simp add: parse_value_def scan_dumps_string)
  then show ?thesis unfolding eq .
next
  case (JInt i)
  obtain c cs where ci: "str_int i = c # cs" using str_int_nonempty[of i] by (cases "str_int i") auto
  have "c \<noteq> CHR 0x22" using hd_str_int[of i] ci not_digit_quote by auto
  then show ?thesis
    using JInt ci parse_int_str_int[OF assms, of i] by (simp add: parse_value_def)
qed

lemma member_end_number_end: "member_end rest \<Longrightarrow> number_end rest"
  by (auto simp: member_end_def number_end_def is_digit_def digit_val_def)

lemma member_end_skip_ws: "member_end rest \<Longrightarrow> skip_ws rest = rest"
  by (cases rest) (auto simp: member_end_def skip_ws_def is_json_ws_def)

lemma parse_member_dumps:
  assumes "member_end rest"
  shows "parse_member (dumps_member kv @ rest) = Some (kv, rest)"
proof -
  obtain k v where kv: "kv = (k, v)" by (cases kv)
  have s: "dumps_member kv @ rest
      = CHR 0x22 # (tl (dumps_string k) @ (CHR '':'' # CHR '' '' # (dumps_value v @ rest)))"
    using dumps_string_hd[of k] by (simp add: dumps_member_def kv)
  have sc: "scan_string Plain (tl (dumps_string k) @ (CHR '':'' # CHR '' '' # (dumps_value v @ rest)))
      = Some (k, CHR '':'' # CHR '' '' # (dumps_value v @ rest))"
    by (rule scan_dumps_string)
  have w1: "skip_ws (CHR '':'' # CHR '' '' # (dumps_value v @ rest)) = CHR '':'' # CHR '' '' # (dumps_value v @ rest)"
    by (simp add: skip_ws_def is_json_ws_def)
  have w2: "skip_ws (CHR '' '' # (dumps_value v @ rest)) = dumps_value v @ rest"
    using skip_ws_dumps_value[of v rest] by (simp add: skip_ws_def is_json_ws_def)
  have pv: "parse_value (dumps_value v @ rest) = Some (v, rest)"
    using parse_value_dumps[OF member_end_number_end[OF assms]] .
  show ?thesis
    unfolding s parse_member_def
    by (simp add: sc w1 w2 pv literal_def member_end_skip_ws[OF assms] kv)
qed

lemma skip_ws_member: "skip_ws (CHR '' '' # dumps_member kv @ rest) = dumps_member kv @ rest"
  by (simp add: skip_ws_def is_json_ws_def dumps_member_def dumps_string_def)

lemma parse_members_dumps:
  "d \<noteq> [] \<Longrightarrow> length d \<le> n \<Longrightarrow>
   parse_members n (join '', '' (map dumps_member d) @ CHR ''}'' # rest) = Some (d, rest)"
proof (induction d arbitrary: n)
  case Nil
  then show ?case by simp
next
  case (Cons kv d)
  obtain n' where n: "n = Suc n'" using Cons.prems(2) by (cases n) auto
  show ?case
  proof (cases d)
    case Nil
    have "parse_member (dumps_member kv @ CHR ''}'' # rest) = Some (kv, CHR ''}'' # rest)"
      by (rule parse_member_dumps) (simp add: member_end_def)
    then show ?thesis using Nil n by simp
  next
    case (Cons kv' d')
    let ?J = "join '', '' (map dumps_member d) @ CHR ''}'' # rest"
    have j: "join '', '' (map dumps_member (kv # d)) @ CHR ''}'' # rest
        = dumps_member kv @ (CHR '','' # CHR '' '' # ?J)"
      using Cons by simp
    have pm: "parse_member (dumps_member kv @ (CHR '','' # CHR '' '' # ?J)) = Some (kv, CHR '','' # CHR '' '' # ?J)"
      by (rule parse_member_dumps) (simp add: member_end_def)
    have "?J = dumps_member kv' @ (join '', '' (map dumps_member d) @ CHR ''}'' # rest)
        \<or> (\<exists>t. ?J = dumps_member kv' @ t)"
      using Cons by (cases d') auto
    then obtain t where "?J = dumps_member kv' @ t" by blast
    then have sk: "skip_ws (CHR '' '' # ?J) = ?J"
      using skip_ws_member[of kv' t] by simp
    have ih: "parse_members n' ?J = Some (d, rest)"
      using Cons.IH[of n'] Cons.prems(2) n Cons by simp
    show ?thesis
      unfolding j n by (simp add: pm sk ih)
  qed
qed

lemma length_join_members: "length d \<le> length (join '', '' (map dumps_member d))"
proof (induction d rule: induct_list012)
  case 1
  show ?case by simp
next
  case (2 kv)
  show ?case by (simp add: dumps_member_def dumps_string_def)
next
  case (3 kv kv' d)
  then show ?case by simp
qed

lemma loads_dumps: "loads (dumps d) = Some d"
proof (cases d)
  case Nil
  show ?thesis unfolding Nil by (simp add: loads_def dumps_def skip_ws_def is_json_ws_def)
next
  case (Cons kv d')
  define s where "s = dumps d"
  define cs where "cs = join '', '' (map dumps_member d) @ [CHR ''}'']"
  have ne: "d \<noteq> []" using Cons by simp
  obtain t where t: "join '', '' (map dumps_member d) = CHR 0x22 # t"
    using Cons by (cases d') (auto simp: dumps_member_def dumps_string_def)
  define t' where "t' = t @ [CHR ''}'']"
  have s: "s = CHR ''{'' # cs" by (simp add: s_def cs_def dumps_def)
  have cs: "cs = CHR 0x22 # t'" by (simp add: cs_def t t'_def)
  have w0: "skip_ws s = CHR ''{'' # cs" by (simp add: s skip_ws_def is_json_ws_def)
  have w1: "skip_ws cs = CHR 0x22 # t'" by (simp add: cs skip_ws_def is_json_ws_def)
  have w2: "skip_ws [] = []" by (simp add: skip_ws_def)
  have len: "length d \<le> length s"
    using length_join_members[of d] by (simp add: s cs_def)
  have "parse_members (length s) (join '', '' (map dumps_member d) @ CHR ''}'' # []) = Some (d, [])"
    using parse_members_dumps[OF ne len] .
  then have pm: "parse_members (length s) (CHR 0x22 # t') = Some (d, [])"
    by (simp add: t t'_def)
  have "loads s = Some d"
    unfolding loads_def by (simp add: w0 w1 w2 pm)
  then show ?thesis by (simp add: s_def)
qed


subsection \<open>\<open>from_json\<close> after \<open>to_json\<close>\<close>

lemma from_dict_to_dict:
  "from_dict (to_dict m) =
     (case strptime (strftime (last_scanned m)) of
        None \<Rightarrow> None
      | Some dt \<Rightarrow> Some (m\<lparr>last_scanned := dt\<rparr>))"
  by (cases "strptime (strftime (last_scanned m))")
     (simp_all add: from_dict_def to_dict_def dict_get_def field_names_def)

lemma from_json_to_json:
  "from_json (to_json m) =
     (case strptime (strftime (last_scanned m)) of
        None \<Rightarrow> None
      | Some dt \<Rightarrow> Some (m\<lparr>last_scanned := dt\<rparr>))"
  by (simp add: from_json_def to_json_def loads_dumps from_dict_to_dict)

lemma from_json_to_json_valid:
  "valid_datetime (last_scanned m) \<Longrightarrow>
   from_json (to_json m) = Some (m\<lparr>last_scanned := (last_scanned m)\<lparr>microsecond := 0\<rparr>\<rparr>)"
  by (simp add: from_json_to_json strptime_strftime)

section \<open>Round trip of a record through its side-car text\<close>

lemma valid_ex_stamp: "valid_datetime ex_stamp"
  by (simp add: ex_stamp_def valid_datetime_def days_in_month_def is_leap_def)







section \<open>The side-car store\<close>

lemma split_first_none: "c \<notin> set s \<Longrightarrow> split_first [c] s = None"
  by (induction s) auto


lemma save_no_slash:
  "CHR ''/'' \<notin> set key \<Longrightarrow> save env key data cl w = (Inl ValueError, w)"
  by (simp add: save_def split_first_none)

lemma suffix_no_slash: "CHR ''/'' \<notin> set SUFFIX"
  by (simp add: SUFFIX_def)

text \<open>
  Claim C10.  A record whose path has no \<open>/\<close> cannot be written: \<open>write_meta\<close>
  raises \<open>ValueError\<close> and the world is as it was, in every environment (also in test
  mode) and whatever the cloud argument.
\<close>

theorem write_meta_rejects_single_segment:
  assumes "CHR ''/'' \<notin> set (path m)"
  shows "write_meta env m cl w = (Inl ValueError, w)"
proof -
  have "CHR ''/'' \<notin> set (path m @ SUFFIX)"
    using assms suffix_no_slash by simp
  then show ?thesis
    unfolding write_meta_def Let_def by (rule save_no_slash)
qed

theorem write_meta_rejects_single_segment_witness:
  "CHR ''/'' \<notin> set (path (ex_meta\<lparr>path := ''orders.csv''\<rparr>))
   \<and> write_meta ex_env (ex_meta\<lparr>path := ''orders.csv''\<rparr>) None empty_world
       = (Inl ValueError, empty_world)"
proof -
  have h: "CHR ''/'' \<notin> set (path (ex_meta\<lparr>path := ''orders.csv''\<rparr>))" by simp
  from write_meta_rejects_single_segment[OF h] h show ?thesis by simp
qed

lemma ex_write:
  "write_meta ex_env_test ex_meta None empty_world =
     (Inr (), empty_world\<lparr>s3_objects := [((''bucket'', ''orders.csv.meta.json''), to_json ex_meta)]\<rparr>)"
  by (simp add: write_meta_def save_def ex_meta_def SUFFIX_def is_s3_bucket_def ex_env_test_def
      ex_env_def empty_world_def put_def)

lemma ex_from_json: "from_json (to_json ex_meta) = Some ex_meta_seconds"
proof -
  have "valid_datetime (last_scanned ex_meta)"
    using valid_ex_stamp by (simp add: ex_meta_def)
  then show ?thesis
    using from_json_to_json_valid[of ex_meta] by (simp add: ex_meta_seconds_def ex_meta_def)
qed

text \<open>
  Claim C1 fails on the code.  In test mode \<open>write_meta\<close> still puts the side-car
  into the S3 backend and leaves the local directory empty, so that \<open>get_meta\<close> and
  \<open>read_all\<close>, which do read the local directory in test mode, do not find the record
  just written.  Without test mode the same write is found by both.
\<close>

theorem test_mode_write_meta_uses_backend:
  "write_meta ex_env_test ex_meta None empty_world =
     (Inr (), empty_world\<lparr>s3_objects := [((''bucket'', ''orders.csv.meta.json''), to_json ex_meta)]\<rparr>)
   \<and> local_files (snd (write_meta ex_env_test ex_meta None empty_world)) = []
   \<and> get_meta ex_env_test (path ex_meta) ''s3'' (snd (write_meta ex_env_test ex_meta None empty_world)) = None
   \<and> read_all ex_env_test [] (snd (write_meta ex_env_test ex_meta None empty_world)) = []
   \<and> get_meta ex_env (path ex_meta) ''s3'' (snd (write_meta ex_env ex_meta None empty_world)) = Some ex_meta_seconds
   \<and> read_all ex_env [] (snd (write_meta ex_env ex_meta None empty_world)) = [ex_meta_seconds]"
proof -
  have w: "write_meta ex_env ex_meta None empty_world =
     (Inr (), empty_world\<lparr>s3_objects := [((''bucket'', ''orders.csv.meta.json''), to_json ex_meta)]\<rparr>)"
    by (simp add: write_meta_def save_def ex_meta_def SUFFIX_def is_s3_bucket_def
      ex_env_def empty_world_def put_def)
  have g1: "get_meta ex_env_test (path ex_meta) ''s3''
      (empty_world\<lparr>s3_objects := [((''bucket'', ''orders.csv.meta.json''), to_json ex_meta)]\<rparr>) = None"
    by (simp add: get_meta_def load_def ex_env_test_def ex_env_def empty_world_def)
  have r1: "read_all ex_env_test []
      (empty_world\<lparr>s3_objects := [((''bucket'', ''orders.csv.meta.json''), to_json ex_meta)]\<rparr>) = []"
    by (simp add: read_all_def iter_keys_def ex_env_test_def ex_env_def empty_world_def
        List.map_filter_def)
  have l2: "load ex_env ''bucket/orders.csv.meta.json''
      (empty_world\<lparr>s3_objects := [((''bucket'', ''orders.csv.meta.json''), to_json ex_meta)]\<rparr>)
      = Inr (to_json ex_meta)"
    by (simp add: load_def ex_env_def empty_world_def is_s3_bucket_def)
  have g2: "get_meta ex_env (path ex_meta) ''s3''
      (empty_world\<lparr>s3_objects := [((''bucket'', ''orders.csv.meta.json''), to_json ex_meta)]\<rparr>)
      = Some ex_meta_seconds"
    using l2 by (simp add: get_meta_def ex_meta_def SUFFIX_def ex_from_json[unfolded ex_meta_def])
  have k2: "iter_keys ex_env []
      (empty_world\<lparr>s3_objects := [((''bucket'', ''orders.csv.meta.json''), to_json ex_meta)]\<rparr>)
      = [''bucket/orders.csv.meta.json'']"
    by (simp add: iter_keys_def iter_s3_def iter_azure_def ex_env_def empty_world_def
        startswith_def endswith_def SUFFIX_def suffix_def)
  have r2: "read_all ex_env []
      (empty_world\<lparr>s3_objects := [((''bucket'', ''orders.csv.meta.json''), to_json ex_meta)]\<rparr>)
      = [ex_meta_seconds]"
    unfolding read_all_def k2 by (simp add: List.map_filter_def l2 ex_from_json)
  show ?thesis
    unfolding ex_write w by (simp add: g1 r1 g2 r2) (simp add: empty_world_def)
qed

section \<open>The describer\<close>

lemma join_cons: "\<exists>t. join sep (x # xs) = x @ t"
  by (cases xs) auto

lemma auto_describe_table_line:
  assumes "cols \<noteq> []"
  shows "\<exists>pk t. auto_describe_table cols = Inr (''PK='' @ pk @ t)"
proof -
  obtain c0 rest where c: "cols = c0 # rest" using assms by (cases cols) auto
  define pk where "pk = (case filter (\<lambda>c. is_id_name (col_name c) \<and> is_unique c) cols of
                       [] \<Rightarrow> col_name c0
                     | c # cs \<Rightarrow> col_name c)"
  define more where "more = (if filter (\<lambda>n. is_id_name n \<and> n \<noteq> pk) (map col_name cols) = [] then []
      else [''FK='' @ join '','' (filter (\<lambda>n. is_id_name n \<and> n \<noteq> pk) (map col_name cols))])
     @ List.map_filter
                 (\<lambda>c. if is_date_name (col_name c)
                       then (case date_range c of
                               None \<Rightarrow> None
                             | Some (lo, hi) \<Rightarrow> Some (col_name c @ '' '' @ lo @ range_arrow @ hi))
                       else None) cols"
  obtain t where t: "join bits_separator ((''PK='' @ pk) # more) = (''PK='' @ pk) @ t"
    using join_cons by blast
  have "auto_describe_table cols =
      Inr (if join bits_separator ((''PK='' @ pk) # more) = [] then ''Table''
           else join bits_separator ((''PK='' @ pk) # more))"
    unfolding auto_describe_table_def pk_def more_def c by (simp add: Let_def)
  then have "auto_describe_table cols = Inr (''PK='' @ pk @ t)"
    using t by simp
  then show ?thesis by blast
qed

text \<open>
  Claim C9 fails on the code.  A preview that parses to a table without columns has
  nothing to identify; the claim has \<open>auto_describe\<close> return \<open>"Table"\<close> there, the
  code raises \<open>IndexError\<close>.  And no table at all makes it return \<open>"Table"\<close>: the
  list of bits always holds the \<open>PK=\<close> entry, so the fallback after \<open>or\<close> is never
  taken.
\<close>

theorem auto_describe_never_falls_back:
  "auto_describe_table [] = Inl IndexError \<and> (\<forall>cols. auto_describe_table cols \<noteq> Inr ''Table'')"
proof
  show "auto_describe_table [] = Inl IndexError" by (simp add: auto_describe_table_def)
next
  show "\<forall>cols. auto_describe_table cols \<noteq> Inr ''Table''"
  proof
    fix cols
    show "auto_describe_table cols \<noteq> Inr ''Table''"
    proof (cases "cols = []")
      case True
      then show ?thesis by (simp add: auto_describe_table_def)
    next
      case False
      then obtain pk t where "auto_describe_table cols = Inr (''PK='' @ pk @ t)"
        using auto_describe_table_line by blast
      then show ?thesis by simp
    qed
  qed
qed

section \<open>The answer that a per-source client returns\<close>








section \<open>Plan execution threads the prior answers\<close>

lemma dropWhile_keeps: "\<not> P c \<Longrightarrow> \<exists>u. dropWhile P (a @ c # r) = u @ c # r"
proof (induction a)
  case Nil
  then show ?case by (intro exI[of _ "[]"]) simp
next
  case (Cons x a)
  then obtain u where u: "dropWhile P (a @ c # r) = u @ c # r" by blast
  show ?case
  proof (cases "P x")
    case True
    then show ?thesis using u by simp
  next
    case False
    then show ?thesis by (intro exI[of _ "x # a"]) simp
  qed
qed

lemma strip_keeps:
  assumes "\<not> is_space c" and "\<not> is_space d"
  shows "\<exists>u v. strip (a @ c # m @ d # b) = u @ c # m @ d # v"
proof -
  obtain u where u: "dropWhile is_space (a @ c # (m @ d # b)) = u @ c # (m @ d # b)"
    using dropWhile_keeps[of is_space c a "m @ d # b"] assms(1) by blast
  obtain w where w: "dropWhile is_space (rev b @ d # rev (u @ c # m)) = w @ d # rev (u @ c # m)"
    using dropWhile_keeps[of is_space d "rev b" "rev (u @ c # m)"] assms(2) by blast
  have "strip (a @ c # m @ d # b) = rev (dropWhile is_space (rev b @ d # rev (u @ c # m)))"
    using u by (simp add: strip_def lstrip_def rstrip_def)
  also have "\<dots> = u @ c # m @ d # rev w"
    using w by simp
  finally show ?thesis by blast
qed

lemma enhanced_prompt_contains:
  "\<exists>pre post. enhanced_prompt d c subq = pre @ subq @ post"
proof -
  have sp: "\<not> is_space CHR ''Y''" "\<not> is_space CHR ''R''"
    by (simp_all add: is_space_def)
  obtain u v where
    "strip ((NL @ ''        '') @ CHR ''Y'' #
       (''ou are a data extraction expert.'' @ NL
       @ ''        Your task is to answer the following question using ONLY the contents of the file (if it exists):'' @ NL
       @ ''        File: '' @ d @ NL
       @ ''        Cloud: '' @ upper c @ NL
       @ ''        QUESTION:'' @ subq @ NL @ ''        '') @ CHR ''R'' #
       (''eturn direct results from the file.'' @ NL
       @ ''        If the file is missing or not available, respond with:'' @ NL
       @ ''        No data found for file: '' @ d))
     = u @ CHR ''Y'' #
       (''ou are a data extraction expert.'' @ NL
       @ ''        Your task is to answer the following question using ONLY the contents of the file (if it exists):'' @ NL
       @ ''        File: '' @ d @ NL
       @ ''        Cloud: '' @ upper c @ NL
       @ ''        QUESTION:'' @ subq @ NL @ ''        '') @ CHR ''R'' # v"
    using strip_keeps[OF sp] by blast
  then have "enhanced_prompt d c subq =
      (u @ CHR ''Y'' #
       (''ou are a data extraction expert.'' @ NL
       @ ''        Your task is to answer the following question using ONLY the contents of the file (if it exists):'' @ NL
       @ ''        File: '' @ d @ NL
       @ ''        Cloud: '' @ upper c @ NL
       @ ''        QUESTION:'')) @ subq @ (NL @ ''        '' @ CHR ''R'' # v)"
    by (simp add: enhanced_prompt_def)
  then show ?thesis by blast
qed

lemma join_layout:
  "hist \<noteq> [] \<Longrightarrow>
   \<exists>gaps. length gaps = length hist \<and>
     pre @ join sep (map (\<lambda>(i, ans). f i @ ans) (enumerate n hist)) = concat (map2 (@) gaps hist)"
proof (induction hist arbitrary: pre n)
  case Nil
  then show ?case by simp
next
  case (Cons a hist)
  show ?case
  proof (cases hist)
    case Nil
    then show ?thesis by (intro exI[of _ "[pre @ f n]"]) simp
  next
    case (Cons b hist')
    then have "hist \<noteq> []" by simp
    from Cons.IH[OF this, of sep "Suc n"] obtain gaps where
      g: "length gaps = length hist"
         "sep @ join sep (map (\<lambda>(i, ans). f i @ ans) (enumerate (Suc n) hist)) = concat (map2 (@) gaps hist)"
      by blast
    show ?thesis
      using g Cons by (intro exI[of _ "(pre @ f n) # gaps"]) simp
  qed
qed

lemma augment_layout:
  "\<exists>gaps tail. length gaps = length history \<and>
     augment subq history = concat (map2 (@) gaps history) @ tail @ subq"
proof (cases "history = []")
  case True
  then show ?thesis by (simp add: augment_def)
next
  case False
  from join_layout[OF False, of "NL @ NL @ ''----- PREVIOUS ANSWERS -----'' @ NL" "NL @ NL"
      "\<lambda>i. ''[step '' @ str_nat (i + 1) @ '']'' @ NL" 0]
  obtain gaps where g: "length gaps = length history"
    "(NL @ NL @ ''----- PREVIOUS ANSWERS -----'' @ NL) @ join (NL @ NL)
       (map (\<lambda>(i, ans). (''[step '' @ str_nat (i + 1) @ '']'' @ NL) @ ans) (enumerate 0 history))
     = concat (map2 (@) gaps history)"
    by blast
  have "augment subq history =
      concat (map2 (@) gaps history) @ (NL @ ''-----------------------------'' @ NL @ NL) @ subq"
    using False g(2) by (simp add: augment_def)
  with g(1) show ?thesis by blast
qed

lemma ask_text_trace:
  "ask_text orc c tr = (r, tr') \<Longrightarrow> tr' = tr @ [(c, orc tr c)] \<and> (\<forall>s. r = Inr s \<longrightarrow> orc tr c = Text s)"
  by (auto simp: ask_text_def ask_def split: response.splits)

lemma execute_steps_trace:
  "execute_steps orc sts results history tr = (res, tr') \<Longrightarrow>
   \<exists>evs. tr' = tr @ evs \<and> length evs \<le> length (filter dispatched sts) \<and>
     (\<forall>j < length evs. \<exists>c d. usable (filter dispatched sts ! j) = Some (c, d) \<and>
        fst (evs ! j) = answer_call c d
          (augment (sub_question (filter dispatched sts ! j)) (history @ map answer_of (take j evs))))"
proof (induction sts arbitrary: results history tr)
  case Nil
  then show ?case by simp
next
  case (Cons st rest)
  show ?case
  proof (cases "usable st")
    case None
    then have nd: "\<not> dispatched st" by (simp add: dispatched_def)
    from Cons.prems None have
      "execute_steps orc rest (results @ [(''error'', skipped_message (augment (sub_question st) history))]) history tr = (res, tr')"
      by simp
    from Cons.IH[OF this] show ?thesis using nd by simp
  next
    case (Some cd)
    obtain c d where cd: "cd = (c, d)" by (cases cd)
    have disp: "dispatched st" using Some by (simp add: dispatched_def)
    let ?call = "answer_call c d (augment (sub_question st) history)"
    obtain r tr1 where a: "ask_text orc ?call tr = (r, tr1)" by (cases "ask_text orc ?call tr")
    from ask_text_trace[OF a] have tr1: "tr1 = tr @ [(?call, orc tr ?call)]"
      and rr: "\<And>s. r = Inr s \<Longrightarrow> orc tr ?call = Text s" by auto
    show ?thesis
    proof (cases r)
      case (Inl e)
      with Cons.prems Some cd a have "tr' = tr1" by simp
      then show ?thesis
        using tr1 disp Some cd by (intro exI[of _ "[(?call, orc tr ?call)]"]) simp
    next
      case (Inr out)
      with Cons.prems Some cd a have
        "execute_steps orc rest (results @ [(c, out)]) (history @ [out]) tr1 = (res, tr')" by simp
      from Cons.IH[OF this] obtain evs where evs: "tr' = tr1 @ evs"
        "length evs \<le> length (filter dispatched rest)"
        "\<forall>j < length evs. \<exists>c d. usable (filter dispatched rest ! j) = Some (c, d) \<and>
            fst (evs ! j) = answer_call c d
              (augment (sub_question (filter dispatched rest ! j)) ((history @ [out]) @ map answer_of (take j evs)))"
        by blast
      let ?ev = "(?call, orc tr ?call)"
      have out: "answer_of ?ev = out" using rr[OF Inr] by simp
      have "\<forall>j < length (?ev # evs). \<exists>c d. usable (filter dispatched (st # rest) ! j) = Some (c, d) \<and>
            fst ((?ev # evs) ! j) = answer_call c d
              (augment (sub_question (filter dispatched (st # rest) ! j)) (history @ map answer_of (take j (?ev # evs))))"
      proof (intro allI impI)
        fix j assume j: "j < length (?ev # evs)"
        show "\<exists>c d. usable (filter dispatched (st # rest) ! j) = Some (c, d) \<and>
            fst ((?ev # evs) ! j) = answer_call c d
              (augment (sub_question (filter dispatched (st # rest) ! j)) (history @ map answer_of (take j (?ev # evs))))"
        proof (cases j)
          case 0
          then show ?thesis using disp Some cd by simp
        next
          case (Suc k)
          with j have "k < length evs" by simp
          with evs(3) obtain c' d' where
            "usable (filter dispatched rest ! k) = Some (c', d')"
            "fst (evs ! k) = answer_call c' d'
              (augment (sub_question (filter dispatched rest ! k)) ((history @ [out]) @ map answer_of (take k evs)))"
            by blast
          then show ?thesis using Suc disp out by simp
        qed
      qed
      then show ?thesis
        using evs(1,2) tr1 disp by (intro exI[of _ "?ev # evs"]) simp
    qed
  qed
qed

lemma filter_nth_count:
  assumes "N < length xs" and "P (xs ! N)"
  shows "filter P xs ! length (filter P (take N xs)) = xs ! N"
proof -
  have "xs = take N xs @ xs ! N # drop (Suc N) xs"
    using assms(1) by (simp add: id_take_nth_drop)
  then have "filter P xs = filter P (take N xs) @ xs ! N # filter P (drop (Suc N) xs)"
    using assms(2) by (metis filter.simps(2) filter_append)
  then show ?thesis by (simp add: nth_append)
qed

text \<open>
  Claim C5.  Let step \<open>N\<close> of the plan be a step that is dispatched (it names a cloud
  and a dataset), and let the run reach it: it is the \<open>j\<close>-th call of the run, where
  \<open>j\<close> counts the dispatched steps before it.  Then the sub-question sent with that
  call is \<open>g\<^sub>1 @ a\<^sub>1 @ \<dots> @ g\<^sub>j @ a\<^sub>j @ tail @ q\<close>, where \<open>a\<^sub>1, \<dots>, a\<^sub>j\<close> are the
  answers that the \<open>j\<close> earlier calls returned, in that order, and \<open>q\<close> is the
  step's own question; and the prompt of the call contains this sub-question literally.
  A step that is skipped returns no answer and adds nothing to the history.
\<close>

theorem execute_plan_threads_prior_answers:
  assumes "execute_plan orc p tr = (res, tr')"
    and "N < length (plan_steps p)"
    and "dispatched (plan_steps p ! N)"
    and "j = length (filter dispatched (take N (plan_steps p)))"
    and "j < length (new_events tr tr')"
  shows "\<exists>c d gaps tail pre post.
      usable (plan_steps p ! N) = Some (c, d) \<and> length gaps = j \<and>
      fst (new_events tr tr' ! j) =
        answer_call c d
          (concat (map2 (@) gaps (map answer_of (take j (new_events tr tr'))))
             @ tail @ sub_question (plan_steps p ! N)) \<and>
      call_prompt (fst (new_events tr tr' ! j)) =
        pre @ (concat (map2 (@) gaps (map answer_of (take j (new_events tr tr'))))
             @ tail @ sub_question (plan_steps p ! N)) @ post"
proof -
  let ?sts = "plan_steps p"
  from assms(1) obtain evs where evs: "tr' = tr @ evs"
    and all: "\<forall>j < length evs. \<exists>c d. usable (filter dispatched ?sts ! j) = Some (c, d) \<and>
        fst (evs ! j) = answer_call c d
          (augment (sub_question (filter dispatched ?sts ! j)) ([] @ map answer_of (take j evs)))"
    unfolding execute_plan_def using execute_steps_trace by blast
  have ne: "new_events tr tr' = evs" using evs by (simp add: new_events_def)
  have st: "filter dispatched ?sts ! j = ?sts ! N"
    using filter_nth_count[of N "plan_steps p" dispatched] assms(2,3,4) by simp
  from assms(5) ne have "j < length evs" by simp
  with all st obtain c d where cd: "usable (?sts ! N) = Some (c, d)"
    and call: "fst (evs ! j) = answer_call c d
          (augment (sub_question (?sts ! N)) (map answer_of (take j evs)))"
    by auto
  obtain gaps tail where g: "length gaps = length (map answer_of (take j evs))"
    and aug: "augment (sub_question (?sts ! N)) (map answer_of (take j evs)) =
        concat (map2 (@) gaps (map answer_of (take j evs))) @ tail @ sub_question (?sts ! N)"
    using augment_layout by blast
  let ?subq = "concat (map2 (@) gaps (map answer_of (take j evs))) @ tail @ sub_question (?sts ! N)"
  obtain pre post where pp: "enhanced_prompt d c ?subq = pre @ ?subq @ post"
    using enhanced_prompt_contains by blast
  have len: "length gaps = j" using g \<open>j < length evs\<close> by simp
  have prompt: "call_prompt (answer_call c d ?subq) = pre @ ?subq @ post"
    using pp by (simp add: answer_call_def)
  show ?thesis
    unfolding ne using cd len call aug prompt by metis
qed

lemma ex_len: "length (snd (execute_plan ex_reply ex_plan [])) = 2"
  by (simp add: execute_plan_def ex_plan_def plan_steps_def usable_def ask_text_def ask_def ex_reply_def)

theorem execute_plan_threads_prior_answers_witness:
  "\<exists>gaps tail pre post.
      length gaps = 1 \<and>
      fst (new_events [] (snd (execute_plan ex_reply ex_plan [])) ! 1) =
        answer_call ''azure'' ''b.csv'' (concat (map2 (@) gaps [''42'']) @ tail @ ''q2'') \<and>
      call_prompt (fst (new_events [] (snd (execute_plan ex_reply ex_plan [])) ! 1)) =
        pre @ (concat (map2 (@) gaps [''42'']) @ tail @ ''q2'') @ post"
proof -
  have h1: "execute_plan ex_reply ex_plan [] =
      (fst (execute_plan ex_reply ex_plan []), snd (execute_plan ex_reply ex_plan []))" by simp
  have h2: "2 < length (plan_steps ex_plan)" by (simp add: ex_plan_def plan_steps_def)
  have h3: "dispatched (plan_steps ex_plan ! 2)"
    by (simp add: ex_plan_def plan_steps_def dispatched_def usable_def)
  have h4: "1 = length (filter dispatched (take 2 (plan_steps ex_plan)))"
    by (simp add: ex_plan_def plan_steps_def dispatched_def usable_def)
  have h5: "1 < length (new_events [] (snd (execute_plan ex_reply ex_plan [])))"
    by (simp add: new_events_def ex_len)
  have ans: "map answer_of (take 1 (new_events [] (snd (execute_plan ex_reply ex_plan [])))) = [''42'']"
    by (simp add: new_events_def execute_plan_def ex_plan_def plan_steps_def usable_def ask_text_def ask_def ex_reply_def)
  have u: "usable (plan_steps ex_plan ! 2) = Some (''azure'', ''b.csv'')"
    by (simp add: ex_plan_def plan_steps_def usable_def)
  have q: "sub_question (plan_steps ex_plan ! 2) = ''q2''"
    by (simp add: ex_plan_def plan_steps_def)
  from execute_plan_threads_prior_answers[OF h1 h2 h3 h4 h5]
  show ?thesis unfolding ans u q by auto
qed

section \<open>The orchestrator: discovery, the empty plan, the plan of one step\<close>

lemma quiet_refl: "quiet tr tr"
  by (simp add: quiet_def)

lemma quiet_trans: "quiet a b \<Longrightarrow> quiet b c \<Longrightarrow> quiet a c"
  by (auto simp: quiet_def)

lemma ask_quiet:
  "\<not> is_step_call c \<Longrightarrow> \<not> is_merge_call c \<Longrightarrow> ask orc c tr = (r, tr') \<Longrightarrow> quiet tr tr'"
  by (auto simp: ask_def quiet_def)

lemma ask_text_quiet:
  "\<not> is_step_call c \<Longrightarrow> \<not> is_merge_call c \<Longrightarrow> ask_text orc c tr = (r, tr') \<Longrightarrow> quiet tr tr'"
  by (auto simp: ask_text_def ask_def quiet_def split: response.splits)

lemma ask_names_quiet:
  "\<not> is_step_call c \<Longrightarrow> \<not> is_merge_call c \<Longrightarrow> ask_names orc c tr = (r, tr') \<Longrightarrow> quiet tr tr'"
  by (auto simp: ask_names_def ask_def quiet_def split: response.splits)

lemma download_head_quiet: "download_head env p cl tr = (r, tr') \<Longrightarrow> quiet tr tr'"
  by (auto simp: download_head_def split: if_splits prod.splits intro: ask_text_quiet[rotated 2])

lemma object_properties_quiet: "object_properties env p cl tr = (r, tr') \<Longrightarrow> quiet tr tr'"
  unfolding object_properties_def
  by (auto simp: ask_def quiet_def split: if_splits prod.splits response.splits)

lemma save_trace: "save env key data cl w = (r, w') \<Longrightarrow> trace w' = trace w"
  by (auto simp: save_def split: option.splits if_splits prod.splits)

lemma write_meta_trace: "write_meta env m cl w = (r, w') \<Longrightarrow> trace w' = trace w"
  unfolding write_meta_def Let_def by (rule save_trace)


lemma scan_object_quiet:
  assumes "scan_object env p cl w = (r, w')"
  shows "quiet (trace w) (trace w')"
proof -
  obtain r1 tr1 where d: "download_head env p cl (trace w) = (r1, tr1)"
    by (cases "download_head env p cl (trace w)")
  have q1: "quiet (trace w) tr1" using d by (rule download_head_quiet)
  show ?thesis
  proof (cases r1)
    case (Inl e)
    then have "trace w' = tr1" using assms d by (auto simp: scan_object_def)
    then show ?thesis using q1 by simp
  next
    case (Inr raw_head)
    obtain r2 tr2 where a: "ask_text (reply env) (DescribeLLM p (upper cl) (strip raw_head)) tr1 = (r2, tr2)"
      by (cases "ask_text (reply env) (DescribeLLM p (upper cl) (strip raw_head)) tr1")
    have q2: "quiet tr1 tr2" using a by (intro ask_text_quiet[OF _ _ a]) simp_all
    have q12: "quiet (trace w) tr2" using q1 q2 by (rule quiet_trans)
    show ?thesis
    proof (cases r2)
      case (Inl e)
      then have "trace w' = tr2" using assms d Inr a by (auto simp: scan_object_def)
      then show ?thesis using q12 by simp
    next
      case dt: (Inr dtext)
      show ?thesis
      proof (cases "2 < length (words (strip dtext))")
        case False
        then have "trace w' = tr2" using assms d Inr a dt by (auto simp: scan_object_def)
        then show ?thesis using q12 by simp
      next
        case True
        obtain sz mime tr3 where o: "object_properties env p cl tr2 = ((sz, mime), tr3)"
          by (cases "object_properties env p cl tr2") auto
        have q3: "quiet tr2 tr3" using o by (rule object_properties_quiet)
        obtain r4 tr4 where n: "ask (reply env) Now tr3 = (r4, tr4)"
          by (cases "ask (reply env) Now tr3")
        have q4: "quiet tr3 tr4" by (rule ask_quiet[OF _ _ n]) simp_all
        have q14: "quiet (trace w) tr4" using q12 q3 q4 by (blast intro: quiet_trans)
        have "trace w' = tr4"
        proof (cases r4)
          case (Time now)
          obtain rw ww where wm: "write_meta env
               \<lparr>path = p, cloud = cl, title = basename p, description = strip dtext,
                 mime_type = mime, size_f = sz, last_scanned = now\<rparr>
               (Some cl) (w\<lparr>trace := tr4\<rparr>) = (rw, ww)"
            by (cases "write_meta env
               \<lparr>path = p, cloud = cl, title = basename p, description = strip dtext,
                 mime_type = mime, size_f = sz, last_scanned = now\<rparr>
               (Some cl) (w\<lparr>trace := tr4\<rparr>)")
          have "w' = ww"
            using assms d Inr a dt True o n Time wm by (simp add: scan_object_def Let_def)
          then show ?thesis using write_meta_trace[OF wm] by simp
        qed (use assms d Inr a dt True o n in \<open>auto simp: scan_object_def Let_def\<close>)
        then show ?thesis using q14 by simp
      qed
    qed
  qed
qed

lemma list_s3_meta_quiet: "list_s3_meta env tr = (r, tr') \<Longrightarrow> quiet tr tr'"
  unfolding list_s3_meta_def
  by (auto split: prod.splits sum.splits intro: ask_names_quiet[rotated 2])

lemma list_az_meta_quiet: "list_az_meta env tr = (r, tr') \<Longrightarrow> quiet tr tr'"
  unfolding list_az_meta_def
  by (auto split: prod.splits sum.splits intro: ask_names_quiet[rotated 2])

lemma plan_call_quiet: "plan_call env q d s f tr = (r, tr') \<Longrightarrow> quiet tr tr'"
  unfolding plan_call_def
  by (auto simp: ask_def quiet_def split: prod.splits response.splits)


lemma blocks_loop_quiet:
  "blocks_loop env metas st tr = (r, tr') \<Longrightarrow> quiet tr tr'"
proof (induction metas arbitrary: st tr)
  case Nil
  then show ?case by (cases st) (auto simp: quiet_refl)
next
  case (Cons meta rest)
  obtain dl sl fs ht where st: "st = (dl, sl, fs, ht)" by (cases st) auto
  obtain r1 tr1 where l: "list_s3_meta env tr = (r1, tr1)" by (cases "list_s3_meta env tr")
  have q1: "quiet tr tr1" using l by (rule list_s3_meta_quiet)
  show ?case
  proof (cases r1)
    case (Inl e)
    then have "tr' = tr1" using Cons.prems st l by (simp add: Let_def)
    then show ?thesis using q1 by simp
  next
    case (Inr s3_metas)
    define cl where "cl = (if meta \<in> set s3_metas then ''s3'' else ''azure'')"
    obtain r2 tr2 where d: "download_head env (meta_path meta) cl tr1 = (r2, tr2)"
      by (cases "download_head env (meta_path meta) cl tr1")
    have q2: "quiet tr1 tr2" using d by (rule download_head_quiet)
    have q12: "quiet tr tr2" using q1 q2 by (rule quiet_trans)
    have "tr' = tr2 \<or> (\<exists>st'. blocks_loop env rest st' tr2 = (r, tr'))"
      using Cons.prems st l Inr d
      by (auto simp: Let_def cl_def split: sum.splits option.splits if_splits)
    then show ?thesis
    proof
      assume "tr' = tr2"
      then show ?thesis using q12 by simp
    next
      assume "\<exists>st'. blocks_loop env rest st' tr2 = (r, tr')"
      then obtain st' where "blocks_loop env rest st' tr2 = (r, tr')" by blast
      then have "quiet tr2 tr'" by (rule Cons.IH)
      with q12 show ?thesis by (rule quiet_trans)
    qed
  qed
qed

lemma build_blocks_quiet:
  assumes "build_dataset_and_schema_blocks env tr = (r, tr')"
  shows "quiet tr tr'"
proof -
  obtain r1 tr1 where l1: "list_s3_meta env tr = (r1, tr1)" by (cases "list_s3_meta env tr")
  have q1: "quiet tr tr1" using l1 by (rule list_s3_meta_quiet)
  show ?thesis
  proof (cases r1)
    case (Inl e)
    then have "tr' = tr1" using assms l1 by (simp add: build_dataset_and_schema_blocks_def)
    then show ?thesis using q1 by simp
  next
    case s3: (Inr s3_metas)
    obtain r2 tr2 where l2: "list_az_meta env tr1 = (r2, tr2)" by (cases "list_az_meta env tr1")
    have q2: "quiet tr1 tr2" using l2 by (rule list_az_meta_quiet)
    show ?thesis
    proof (cases r2)
      case (Inl e)
      then have "tr' = tr2" using assms l1 s3 l2 by (simp add: build_dataset_and_schema_blocks_def)
      then show ?thesis using q1 q2 by (blast intro: quiet_trans)
    next
      case az: (Inr az_metas)
      obtain r3 tr3 where b: "blocks_loop env (s3_metas @ az_metas) ([], [], [], None) tr2 = (r3, tr3)"
        by (cases "blocks_loop env (s3_metas @ az_metas) ([], [], [], None) tr2")
      have q3: "quiet tr2 tr3" using b by (rule blocks_loop_quiet)
      have "tr' = tr3"
        using assms l1 s3 l2 az b
        by (auto simp: build_dataset_and_schema_blocks_def split: sum.splits prod.splits)
      then show ?thesis using q1 q2 q3 by (blast intro: quiet_trans)
    qed
  qed
qed

lemma prescan_loop_quiet:
  "prescan_loop env cl root metas w = (r, w') \<Longrightarrow> quiet (trace w) (trace w')"
proof (induction metas arbitrary: w)
  case Nil
  then show ?case by (auto simp: quiet_refl)
next
  case (Cons meta rest)
  let ?fp = "fmt root @ ''/'' @ meta_path meta"
  show ?case
  proof (cases "get_meta env ?fp cl w \<noteq> None")
    case True
    then have "prescan_loop env cl root rest w = (r, w')" using Cons.prems by (simp add: Let_def)
    then show ?thesis by (rule Cons.IH)
  next
    case False
    obtain r1 w1 where s: "scan_object env ?fp cl w = (r1, w1)" by (cases "scan_object env ?fp cl w")
    have q1: "quiet (trace w) (trace w1)" using s by (rule scan_object_quiet)
    show ?thesis
    proof (cases r1)
      case (Inl e)
      then have "w' = w1" using Cons.prems False s by (simp add: Let_def)
      then show ?thesis using q1 by simp
    next
      case (Inr u)
      then have "prescan_loop env cl root rest w1 = (r, w')"
        using Cons.prems False s by (simp add: Let_def)
      then have "quiet (trace w1) (trace w')" by (rule Cons.IH)
      with q1 show ?thesis by (rule quiet_trans)
    qed
  qed
qed

lemma prescan_quiet:
  assumes "prescan env w = (r, w')"
  shows "quiet (trace w) (trace w')"
proof -
  obtain r1 tr1 where l1: "list_s3_meta env (trace w) = (r1, tr1)"
    by (cases "list_s3_meta env (trace w)")
  have q1: "quiet (trace w) tr1" using l1 by (rule list_s3_meta_quiet)
  show ?thesis
  proof (cases r1)
    case (Inl e)
    then have "trace w' = tr1" using assms l1 by (auto simp: prescan_def)
    then show ?thesis using q1 by simp
  next
    case s3: (Inr s3_metas)
    obtain r2 w2 where p1: "prescan_loop env ''s3'' (S3_BUCKET env) s3_metas (w\<lparr>trace := tr1\<rparr>) = (r2, w2)"
      by (cases "prescan_loop env ''s3'' (S3_BUCKET env) s3_metas (w\<lparr>trace := tr1\<rparr>)")
    have q2: "quiet tr1 (trace w2)" using prescan_loop_quiet[OF p1] by simp
    have q12: "quiet (trace w) (trace w2)" using q1 q2 by (rule quiet_trans)
    show ?thesis
    proof (cases r2)
      case (Inl e)
      then have "w' = w2" using assms l1 s3 p1 by (simp add: prescan_def)
      then show ?thesis using q12 by simp
    next
      case (Inr u)
      obtain r3 tr3 where l2: "list_az_meta env (trace w2) = (r3, tr3)"
        by (cases "list_az_meta env (trace w2)")
      have q3: "quiet (trace w2) tr3" using l2 by (rule list_az_meta_quiet)
      have q13: "quiet (trace w) tr3" using q12 q3 by (rule quiet_trans)
      show ?thesis
      proof (cases r3)
        case (Inl e)
        then have "trace w' = tr3" using assms l1 s3 p1 Inr l2 by (auto simp: prescan_def)
        then show ?thesis using q13 by simp
      next
        case az: (Inr az_metas)
        then have "prescan_loop env ''azure'' (AZURE_CONTAINER env) az_metas (w2\<lparr>trace := tr3\<rparr>) = (r, w')"
          using assms l1 s3 p1 Inr l2 by (simp add: prescan_def)
        then have "quiet tr3 (trace w')" using prescan_loop_quiet by fastforce
        with q13 show ?thesis by (rule quiet_trans)
      qed
    qed
  qed
qed

lemma plan_stage_quiet:
  assumes "plan_stage env question w = (r, w')"
  shows "quiet (trace w) (trace w')"
proof -
  obtain r1 w1 where p: "prescan env w = (r1, w1)" by (cases "prescan env w")
  have q1: "quiet (trace w) (trace w1)" using p by (rule prescan_quiet)
  show ?thesis
  proof (cases r1)
    case (Inl e)
    then have "w' = w1" using assms p by (simp add: plan_stage_def)
    then show ?thesis using q1 by simp
  next
    case (Inr u)
    obtain r2 tr2 where b: "build_dataset_and_schema_blocks env (trace w1) = (r2, tr2)"
      by (cases "build_dataset_and_schema_blocks env (trace w1)")
    have q2: "quiet (trace w1) tr2" using b by (rule build_blocks_quiet)
    have q12: "quiet (trace w) tr2" using q1 q2 by (rule quiet_trans)
    show ?thesis
    proof (cases r2)
      case (Inl e)
      then have "trace w' = tr2" using assms p Inr b by (auto simp: plan_stage_def Let_def)
      then show ?thesis using q12 by simp
    next
      case blocks: (Inr blocks)
      obtain db sb fs where bl: "blocks = (db, sb, fs)" by (cases blocks) auto
      obtain r3 tr3 where c: "plan_call env question db sb fs tr2 = (r3, tr3)"
        by (cases "plan_call env question db sb fs tr2")
      have q3: "quiet tr2 tr3" using c by (rule plan_call_quiet)
      have "trace w' = tr3"
        using assms p Inr b blocks bl c by (auto simp: plan_stage_def Let_def split: sum.splits)
      then show ?thesis using q12 q3 by (auto intro: quiet_trans)
    qed
  qed
qed

lemma ex_plan_stage:
  "plan_stage (ex_env_plan p) ''How many orders?'' empty_world = (Inr p, ex_planned p)"
  by (simp add: plan_stage_def prescan_def list_s3_meta_def list_az_meta_def ask_names_def ask_def
      build_dataset_and_schema_blocks_def plan_call_def ex_env_plan_def ex_env_def ex_reply_plan_def
      empty_world_def ex_planned_def Let_def)



lemma answer_call_not_merge: "\<not> is_merge_call (answer_call c d q)"
  by (simp add: answer_call_def)

text \<open>
  Claim C7.  When the planner has returned a plan of one step, and the step is dispatched
  and its client returns \<open>out\<close>, then \<open>answer\<close> returns \<open>out\<close> as it is; the one call
  made after the planner is the step's, and no call of the whole run is a merge.
\<close>

theorem single_step_fast_path:
  assumes "plan_stage env question w = (Inr p, w1)"
    and "plan_steps p = [st]"
    and "usable st = Some (c, d)"
    and "reply env (trace w1) (answer_call c d (sub_question st)) = Text out"
  shows "answer env question w =
      (Inr out, w1\<lparr>trace := trace w1 @ [(answer_call c d (sub_question st), Text out)]\<rparr>)
    \<and> list_all (\<lambda>ev. \<not> is_merge_call (fst ev))
        (new_events (trace w) (trace w1 @ [(answer_call c d (sub_question st), Text out)]))"
proof -
  have aug: "augment (sub_question st) [] = sub_question st" by (simp add: augment_def)
  have ex: "execute_plan (reply env) p (trace w1) =
      (Inr [(c, out)], trace w1 @ [(answer_call c d (sub_question st), Text out)])"
    using assms(2,3,4) by (simp add: execute_plan_def aug ask_text_def ask_def)
  have a: "answer env question w =
      (Inr out, w1\<lparr>trace := trace w1 @ [(answer_call c d (sub_question st), Text out)]\<rparr>)"
    using assms(1,2) ex by (simp add: answer_def)
  obtain evs where evs: "trace w1 = trace w @ evs"
    and q: "list_all (\<lambda>ev. \<not> is_step_call (fst ev) \<and> \<not> is_merge_call (fst ev)) evs"
    using plan_stage_quiet[OF assms(1)] by (auto simp: quiet_def)
  have "new_events (trace w) (trace w1 @ [(answer_call c d (sub_question st), Text out)])
      = evs @ [(answer_call c d (sub_question st), Text out)]"
    by (simp add: new_events_def evs)
  moreover have "list_all (\<lambda>ev. \<not> is_merge_call (fst ev)) evs"
    using q by (simp add: list_all_iff)
  ultimately show ?thesis using a answer_call_not_merge by simp
qed

theorem single_step_fast_path_witness:
  "answer (ex_env_plan \<lparr>steps = Some [ex_one_step]\<rparr>) ''How many orders?'' empty_world =
      (Inr ''42'', (ex_planned \<lparr>steps = Some [ex_one_step]\<rparr>)
         \<lparr>trace := trace (ex_planned \<lparr>steps = Some [ex_one_step]\<rparr>)
            @ [(answer_call ''s3'' ''orders.csv'' ''How many rows?'', Text ''42'')]\<rparr>)
    \<and> list_all (\<lambda>ev. \<not> is_merge_call (fst ev))
        (new_events (trace empty_world) (trace (ex_planned \<lparr>steps = Some [ex_one_step]\<rparr>)
            @ [(answer_call ''s3'' ''orders.csv'' ''How many rows?'', Text ''42'')]))"
proof -
  have h2: "plan_steps \<lparr>steps = Some [ex_one_step]\<rparr> = [ex_one_step]" by (simp add: plan_steps_def)
  have h3: "usable ex_one_step = Some (''s3'', ''orders.csv'')"
    by (simp add: usable_def ex_one_step_def)
  have q: "sub_question ex_one_step = ''How many rows?''" by (simp add: ex_one_step_def)
  have h4: "reply (ex_env_plan \<lparr>steps = Some [ex_one_step]\<rparr>)
      (trace (ex_planned \<lparr>steps = Some [ex_one_step]\<rparr>))
      (answer_call ''s3'' ''orders.csv'' (sub_question ex_one_step)) = Text ''42''"
    by (simp add: ex_env_plan_def ex_reply_plan_def answer_call_def lower_def lower_char_def)
  from single_step_fast_path[OF ex_plan_stage h2 h3 h4] show ?thesis unfolding q .
qed

text \<open>
  Claim C2 fails on the code.  The download of the head of \<open>a.csv\<close> raises.  In the
  pre-scan of \<open>answer\<close> the exception leaves \<open>scan_object\<close>, whose \<open>try\<close> begins
  after the download, and ends the request; in \<open>_build_dataset_and_schema_blocks\<close> the
  handler reads \<open>head_text\<close>, which the failed download has not bound, and raises
  itself.  In both runs \<open>b.csv\<close> is never looked at.
\<close>

theorem first_download_failure_halts:
  "answer ex_env_fail ''How many orders?'' empty_world =
     (Inl ExternalError, empty_world\<lparr>trace :=
        [(ListS3 (Some ''bucket''), Names [''a.csv'', ''b.csv'']),
         (S3GetRange (Some ''bucket'') ''a.csv'' 65536, Fails)]\<rparr>)
   \<and> build_dataset_and_schema_blocks ex_env_fail [] =
     (Inl UnboundLocalError,
        [(ListS3 (Some ''bucket''), Names [''a.csv'', ''b.csv'']),
         (ListAz (Some ''files.example''), Names []),
         (ListS3 (Some ''bucket''), Names [''a.csv'', ''b.csv'']),
         (S3GetRange (Some ''bucket'') ''a.csv'' 65536, Fails)])"
proof -
  have l: "\<And>tr. list_s3_meta ex_env_fail tr =
      (Inr [[(''path'', ''a.csv''), (''title'', ''a.csv'')], [(''path'', ''b.csv''), (''title'', ''b.csv'')]],
       tr @ [(ListS3 (Some ''bucket''), Names [''a.csv'', ''b.csv''])])"
    by (simp add: list_s3_meta_def ask_names_def ask_def ex_env_fail_def ex_env_def
        ex_reply_fail_def endswith_def suffix_def)
  have la: "\<And>tr. list_az_meta ex_env_fail tr = (Inr [], tr @ [(ListAz (Some ''files.example''), Names [])])"
    by (simp add: list_az_meta_def ask_names_def ask_def ex_env_fail_def ex_env_def ex_reply_fail_def)
  have g: "get_meta ex_env_fail ''bucket/a.csv'' ''s3'' (empty_world\<lparr>trace := tr\<rparr>) = None" for tr
    by (simp add: get_meta_def load_def SUFFIX_def ex_env_fail_def ex_env_def is_s3_bucket_def
        empty_world_def)
  have d1: "download_head ex_env_fail ''bucket/a.csv'' ''s3'' tr =
      (Inl ExternalError, tr @ [(S3GetRange (Some ''bucket'') ''a.csv'' 65536, Fails)])" for tr
    by (simp add: download_head_def s3_address_def ask_text_def ask_def ex_env_fail_def ex_env_def
        ex_reply_fail_def)
  have d2: "download_head ex_env_fail ''a.csv'' ''s3'' tr =
      (Inl ExternalError, tr @ [(S3GetRange (Some ''bucket'') ''a.csv'' 65536, Fails)])" for tr
    by (simp add: download_head_def s3_address_def ask_text_def ask_def ex_env_fail_def ex_env_def
        ex_reply_fail_def)
  have s: "scan_object ex_env_fail ''bucket/a.csv'' ''s3'' (empty_world\<lparr>trace := tr\<rparr>) =
      (Inl ExternalError, empty_world\<lparr>trace := tr @ [(S3GetRange (Some ''bucket'') ''a.csv'' 65536, Fails)]\<rparr>)" for tr
    by (simp add: scan_object_def d1)
  have b: "S3_BUCKET ex_env_fail = Some ''bucket''" by (simp add: ex_env_fail_def ex_env_def)
  have p: "prescan ex_env_fail empty_world =
     (Inl ExternalError, empty_world\<lparr>trace :=
        [(ListS3 (Some ''bucket''), Names [''a.csv'', ''b.csv'']),
         (S3GetRange (Some ''bucket'') ''a.csv'' 65536, Fails)]\<rparr>)"
    by (simp add: prescan_def l b fmt_def meta_path_def g s) (simp add: empty_world_def)
  have 1: "answer ex_env_fail ''How many orders?'' empty_world =
     (Inl ExternalError, empty_world\<lparr>trace :=
        [(ListS3 (Some ''bucket''), Names [''a.csv'', ''b.csv'']),
         (S3GetRange (Some ''bucket'') ''a.csv'' 65536, Fails)]\<rparr>)"
    by (simp add: answer_def plan_stage_def p)
  have 2: "build_dataset_and_schema_blocks ex_env_fail [] =
     (Inl UnboundLocalError,
        [(ListS3 (Some ''bucket''), Names [''a.csv'', ''b.csv'']),
         (ListAz (Some ''files.example''), Names []),
         (ListS3 (Some ''bucket''), Names [''a.csv'', ''b.csv'']),
         (S3GetRange (Some ''bucket'') ''a.csv'' 65536, Fails)])"
    by (simp add: build_dataset_and_schema_blocks_def l la meta_path_def d2 Let_def)
  from 1 2 show ?thesis by simp
qed

section \<open>The per-source clients do not scan a described file again\<close>

subsection \<open>Reads after writes\<close>












subsection \<open>Records that were read from a side-car\<close>







subsection \<open>The store keeps the record\<close>

lemma rewrote_refl: "rewrote env q w w"
  by (simp add: rewrote_def)







subsection \<open>Calls of the describing model\<close>















subsection \<open>The loops of the clients keep the record\<close>










subsection \<open>A second answer does not scan again\<close>

























end
